theory Spec2Isabelle
  imports Main "HOL-Library.Word" "HOL-Library.Signed_Division"
begin

section \<open>The board: pins, levels and the log of hardware operations\<close>

text \<open>
  The three sketches of the repository drive the same board. Every call into the
  Arduino core, the LowPower library or the analogComp library is recorded, in program
  order, in a log of hardware operations; the sensor values those calls return are inputs
  of the model. The type parameter of the log is the sketch's set of interrupt handlers
  (the function pointers it passes to \<open>attachInterrupt\<close> and \<open>enableInterrupt\<close>).
\<close>

datatype pin = valvePin | potPin | moistureSensorPin

datatype level = LOW | HIGH

datatype pin_mode = INPUT | OUTPUT

datatype trigger = CHANGE | FALLING | RISING

datatype 'h hw_op =
    NoInterrupts
  | Interrupts
  | PinMode pin pin_mode
  | DigitalWrite pin level
  | AnalogRead pin
  | AttachInterrupt pin 'h trigger
  | ComparatorSetOn
  | ComparatorWait
  | ComparatorEnableInterrupt 'h trigger
  | PowerDown

text \<open>The valve writes of a log, in order.\<close>

fun valve_writes :: "'h hw_op list \<Rightarrow> level list" where
  "valve_writes [] = []"
| "valve_writes (DigitalWrite p l # ops) =
     (if p = valvePin then l # valve_writes ops else valve_writes ops)"
| "valve_writes (_ # ops) = valve_writes ops"

text \<open>An operation that reads a sensor, and one that arms an interrupt.\<close>

fun is_sensor_read :: "'h hw_op \<Rightarrow> bool" where
  "is_sensor_read (AnalogRead _) = True"
| "is_sensor_read ComparatorWait = True"
| "is_sensor_read _ = False"

fun is_arming :: "'h hw_op \<Rightarrow> bool" where
  "is_arming (AttachInterrupt _ _ _) = True"
| "is_arming (ComparatorEnableInterrupt _ _) = True"
| "is_arming _ = False"

text \<open>The operations of a log that come before its first write to the valve pin.\<close>

fun before_valve_write :: "'h hw_op list \<Rightarrow> 'h hw_op list" where
  "before_valve_write [] = []"
| "before_valve_write (DigitalWrite p l # ops) =
     (if p = valvePin then [] else DigitalWrite p l # before_valve_write ops)"
| "before_valve_write (op # ops) = op # before_valve_write ops"


section \<open>The debounced comparator sketch\<close>

text \<open>
  \<open>debounceTimer\<close> is an \<open>unsigned long\<close>, 32 bits on the AVR boards the sketch is written
  for. The delay constant is computed in \<open>unsigned long long\<close> and stored in the timer.
\<close>

definition CLOCK_SECONDS_PER_TICK :: "64 word" where
  "CLOCK_SECONDS_PER_TICK = 8"

definition DEBOUNCE_DELAY_TIME :: "64 word" where
  "DEBOUNCE_DELAY_TIME = (1 * 60) div CLOCK_SECONDS_PER_TICK"

datatype isr = MoistureLevelLowInterrupt | MoistureLevelHighInterrupt

record controller =
  valveOpen :: bool
  debounceTimer :: "32 word"
  valveLevel :: level
  comparatorISR :: "(isr \<times> trigger) option"
  trace :: "isr hw_op list"

text \<open>
  The globals as their initialisers leave them; the level of the valve pin before the
  sketch has written it is whatever the board powers up with.
\<close>

definition boot :: "level \<Rightarrow> controller" where
  "boot lvl = \<lparr>valveOpen = True, debounceTimer = 0, valveLevel = lvl,
               comparatorISR = None, trace = []\<rparr>"

definition emit :: "isr hw_op \<Rightarrow> controller \<Rightarrow> controller" where
  "emit op s = s\<lparr>trace := trace s @ [op]\<rparr>"

definition digitalWrite :: "level \<Rightarrow> controller \<Rightarrow> controller" where
  "digitalWrite l s = (emit (DigitalWrite valvePin l) s)\<lparr>valveLevel := l\<rparr>"

definition enableInterrupt :: "isr \<Rightarrow> trigger \<Rightarrow> controller \<Rightarrow> controller" where
  "enableInterrupt h t s = (emit (ComparatorEnableInterrupt h t) s)\<lparr>comparatorISR := Some (h, t)\<rparr>"

definition openWaterValve :: "controller \<Rightarrow> controller" where
  "openWaterValve s =
     (if \<not> valveOpen s then
        (if debounceTimer s = 0 then (digitalWrite HIGH s)\<lparr>valveOpen := True\<rparr> else s)
      else s)"

definition closeWaterValve :: "controller \<Rightarrow> controller" where
  "closeWaterValve s =
     (if valveOpen s then
        (digitalWrite LOW s)\<lparr>valveOpen := False, debounceTimer := ucast DEBOUNCE_DELAY_TIME\<rparr>
      else s)"

text \<open>
  \<open>enableMoistureLevelInterrupts\<close>: the argument \<open>wet\<close> is what
  \<open>analogComparator.waitComp(1)\<close> returns ("Water level is High").
\<close>

definition enableMoistureLevelInterrupts :: "bool \<Rightarrow> controller \<Rightarrow> controller" where
  "enableMoistureLevelInterrupts wet s =
     (let s1 = emit ComparatorWait s in
      if wet then enableInterrupt MoistureLevelLowInterrupt FALLING (closeWaterValve s1)
      else enableInterrupt MoistureLevelHighInterrupt RISING (openWaterValve s1))"

definition setup_debounce :: "bool \<Rightarrow> controller \<Rightarrow> controller" where
  "setup_debounce wet s =
     (let s1 = emit NoInterrupts s;
          s2 = emit (PinMode valvePin OUTPUT) s1;
          s3 = closeWaterValve s2;
          s4 = emit ComparatorSetOn s3;
          s5 = enableMoistureLevelInterrupts wet s4
      in emit Interrupts s5)"

definition loop :: "controller \<Rightarrow> controller" where
  "loop s =
     (let s1 = emit PowerDown s in
      if debounceTimer s1 > 0 then s1\<lparr>debounceTimer := debounceTimer s1 - 1\<rparr> else s1)"

definition moistureLevelLowInterrupt :: "controller \<Rightarrow> controller" where
  "moistureLevelLowInterrupt s =
     openWaterValve (enableInterrupt MoistureLevelHighInterrupt RISING s)"

definition moistureLevelHighInterrupt :: "controller \<Rightarrow> controller" where
  "moistureLevelHighInterrupt s =
     enableInterrupt MoistureLevelLowInterrupt FALLING (closeWaterValve s)"

text \<open>
  The comparator peripheral: an edge of the comparator output calls the enabled handler
  when the edge has the direction the handler was enabled for.
\<close>

fun call_isr :: "isr \<Rightarrow> controller \<Rightarrow> controller" where
  "call_isr MoistureLevelLowInterrupt s = moistureLevelLowInterrupt s"
| "call_isr MoistureLevelHighInterrupt s = moistureLevelHighInterrupt s"

definition comparator_edge :: "trigger \<Rightarrow> controller \<Rightarrow> controller" where
  "comparator_edge d s =
     (case comparatorISR s of
        None \<Rightarrow> s
      | Some (h, t) \<Rightarrow> if t = d \<or> t = CHANGE then call_isr h s else s)"

text \<open>
  What happens after \<open>setup()\<close>: the main loop wakes and runs once (a wake tick), or the
  comparator output has an edge. Handlers run to completion.
\<close>

datatype event = WakeTick | ComparatorEdge trigger

fun step :: "event \<Rightarrow> controller \<Rightarrow> controller" where
  "step WakeTick s = loop s"
| "step (ComparatorEdge d) s = comparator_edge d s"

fun run :: "event list \<Rightarrow> controller \<Rightarrow> controller" where
  "run [] s = s"
| "run (e # es) s = run es (step e s)"

fun ticks :: "event list \<Rightarrow> nat" where
  "ticks [] = 0"
| "ticks (WakeTick # es) = Suc (ticks es)"
| "ticks (_ # es) = ticks es"

text \<open>Calls of the valve actuator and wake ticks, for properties of the actuator alone.\<close>

datatype action = Open | Close | Tick

fun act :: "action \<Rightarrow> controller \<Rightarrow> controller" where
  "act Open s = openWaterValve s"
| "act Close s = closeWaterValve s"
| "act Tick s = loop s"

fun acts :: "action list \<Rightarrow> controller \<Rightarrow> controller" where
  "acts [] s = s"
| "acts (a # as) s = acts as (act a s)"

text \<open>
  The commanded valve state after each call of a sequence, and the writes a sequence of
  commanded states calls for when a write is issued exactly on a change of state:
  \<open>HIGH\<close> on a change to open, \<open>LOW\<close> on a change to closed.
\<close>

fun history :: "action list \<Rightarrow> controller \<Rightarrow> bool list" where
  "history [] s = []"
| "history (a # as) s = valveOpen (act a s) # history as (act a s)"

definition level_of :: "bool \<Rightarrow> level" where
  "level_of b = (if b then HIGH else LOW)"

fun transitions :: "bool \<Rightarrow> bool list \<Rightarrow> level list" where
  "transitions b [] = []"
| "transitions b (b' # bs) =
     (if b' = b then transitions b' bs else level_of b' # transitions b' bs)"

text \<open>The direction the comparator interrupt is enabled for, and its opposite.\<close>

definition armed :: "controller \<Rightarrow> trigger option" where
  "armed s = map_option snd (comparatorISR s)"

fun opposite :: "trigger \<Rightarrow> trigger" where
  "opposite FALLING = RISING"
| "opposite RISING = FALLING"
| "opposite CHANGE = CHANGE"

text \<open>
  The two pairings of handler and direction that the sketch ever enables: the low-level
  handler on a falling edge, the high-level handler on a rising edge.
\<close>

definition paired :: "controller \<Rightarrow> bool" where
  "paired s \<longleftrightarrow>
     comparatorISR s = Some (MoistureLevelLowInterrupt, FALLING) \<or>
     comparatorISR s = Some (MoistureLevelHighInterrupt, RISING)"

text \<open>
  The armed edge in the specification's terms: Rising is "now watching for wet to dry",
  Falling is "now watching for dry to wet". The comparator output is high when the soil
  is wet (\<open>enableMoistureLevelInterrupts\<close> takes a true \<open>waitComp(1)\<close> as "Water level is
  High"), so the wet-to-dry crossing is the comparator's falling edge and the dry-to-wet
  crossing its rising edge.
\<close>

datatype armed_edge = Rising | Falling

definition ArmedEdge :: "controller \<Rightarrow> armed_edge option" where
  "ArmedEdge s =
     (case armed s of
        Some FALLING \<Rightarrow> Some Rising
      | Some RISING \<Rightarrow> Some Falling
      | _ \<Rightarrow> None)"


section \<open>The plain comparator sketch\<close>

text \<open>
  The sketch without debounce keeps no valve state (its \<open>valveOpen\<close> exists only under
  \<open>DEBUG\<close>, for the serial messages): both actuator functions write the pin on every call.
\<close>

datatype isr_plain = MoistureLowInterrupt | MoistureHighInterrupt

record plain_controller =
  valveLevel_plain :: level
  comparatorISR_plain :: "(isr_plain \<times> trigger) option"
  trace_plain :: "isr_plain hw_op list"

definition boot_plain :: "level \<Rightarrow> plain_controller" where
  "boot_plain lvl = \<lparr>valveLevel_plain = lvl, comparatorISR_plain = None, trace_plain = []\<rparr>"

definition emit_plain :: "isr_plain hw_op \<Rightarrow> plain_controller \<Rightarrow> plain_controller" where
  "emit_plain op s = s\<lparr>trace_plain := trace_plain s @ [op]\<rparr>"

definition digitalWrite_plain :: "level \<Rightarrow> plain_controller \<Rightarrow> plain_controller" where
  "digitalWrite_plain l s = (emit_plain (DigitalWrite valvePin l) s)\<lparr>valveLevel_plain := l\<rparr>"

definition enableInterrupt_plain ::
  "isr_plain \<Rightarrow> trigger \<Rightarrow> plain_controller \<Rightarrow> plain_controller" where
  "enableInterrupt_plain h t s =
     (emit_plain (ComparatorEnableInterrupt h t) s)\<lparr>comparatorISR_plain := Some (h, t)\<rparr>"

definition closeWaterValve_plain :: "plain_controller \<Rightarrow> plain_controller" where
  "closeWaterValve_plain s = digitalWrite_plain LOW s"

definition openWaterValve_plain :: "plain_controller \<Rightarrow> plain_controller" where
  "openWaterValve_plain s = digitalWrite_plain HIGH s"

definition setup_plain :: "plain_controller \<Rightarrow> plain_controller" where
  "setup_plain s =
     (let s1 = emit_plain NoInterrupts s;
          s2 = emit_plain (PinMode valvePin OUTPUT) s1;
          s3 = digitalWrite_plain LOW s2;
          s4 = emit_plain ComparatorSetOn s3;
          s5 = enableInterrupt_plain MoistureLowInterrupt FALLING s4
      in emit_plain Interrupts s5)"

definition moistureLowInterrupt :: "plain_controller \<Rightarrow> plain_controller" where
  "moistureLowInterrupt s =
     enableInterrupt_plain MoistureHighInterrupt FALLING (openWaterValve_plain s)"

definition moistureHighInterrupt :: "plain_controller \<Rightarrow> plain_controller" where
  "moistureHighInterrupt s =
     enableInterrupt_plain MoistureLowInterrupt RISING (closeWaterValve_plain s)"


section \<open>The sampling sketch\<close>

text \<open>
  \<open>int\<close> is 16 bits and \<open>long\<close> 32 bits on the AVR boards. The Arduino core's \<open>map\<close>
  computes in \<open>long\<close>, with C's truncating division,
  \<^verbatim>\<open>(x - in_min) * (out_max - out_min) / (in_max - in_min) + out_min\<close>;
  for an \<open>int\<close> argument and the bounds 0 and 1023 the product is below \<open>2 ^ 25\<close> in
  absolute value, so the \<open>long\<close> arithmetic is that of the integers.
\<close>

definition map_long :: "int \<Rightarrow> int \<Rightarrow> int \<Rightarrow> int \<Rightarrow> int \<Rightarrow> int" where
  "map_long x in_min in_max out_min out_max =
     (x - in_min) * (out_max - out_min) sdiv (in_max - in_min) + out_min"

datatype isr_ino = SetMoistureThreshold | CheckMoisture

record sampler =
  lowWater :: "16 word"
  highWater :: "16 word"
  valveOpen_static :: bool
  valveLevel_ino :: level
  trace_ino :: "isr_ino hw_op list"

definition boot_ino :: "level \<Rightarrow> sampler" where
  "boot_ino lvl = \<lparr>lowWater = 0, highWater = 1, valveOpen_static = False,
                   valveLevel_ino = lvl, trace_ino = []\<rparr>"

definition emit_ino :: "isr_ino hw_op \<Rightarrow> sampler \<Rightarrow> sampler" where
  "emit_ino op s = s\<lparr>trace_ino := trace_ino s @ [op]\<rparr>"

definition digitalWrite_ino :: "level \<Rightarrow> sampler \<Rightarrow> sampler" where
  "digitalWrite_ino l s = (emit_ino (DigitalWrite valvePin l) s)\<lparr>valveLevel_ino := l\<rparr>"

text \<open>
  \<open>setMoistureThreshold\<close>: \<open>potValue\<close> is what \<open>analogRead(potPin)\<close> returns, and
  \<open>times_levelDelta\<close> stands for the floating-point step \<^verbatim>\<open>(int)(lowWater * levelDelta)\<close>,
  whose rounding belongs to the platform's \<open>float\<close>.
\<close>

definition setMoistureThreshold :: "(16 word \<Rightarrow> 16 word) \<Rightarrow> 16 word \<Rightarrow> sampler \<Rightarrow> sampler" where
  "setMoistureThreshold times_levelDelta potValue s =
     (let s1 = emit_ino (AnalogRead potPin) s;
          s2 = s1\<lparr>lowWater := word_of_int (map_long (sint potValue) 0 1023 0 1023)\<rparr>;
          s3 = s2\<lparr>highWater := times_levelDelta (lowWater s2)\<rparr>
      in if highWater s3 \<le>s lowWater s3 then s3\<lparr>highWater := lowWater s3 + 1\<rparr> else s3)"

text \<open>\<open>checkMoisture\<close>: \<open>reading\<close> is what \<open>analogRead(moistureSensorPin)\<close> returns.\<close>

definition checkMoisture :: "16 word \<Rightarrow> sampler \<Rightarrow> sampler" where
  "checkMoisture reading s =
     (let s1 = emit_ino (AnalogRead moistureSensorPin) s;
          moistureLevel = (word_of_int (map_long (sint reading) 0 1023 0 1023) :: 16 word)
      in if \<not> valveOpen_static s1 \<and> moistureLevel <s lowWater s1 then
           (digitalWrite_ino HIGH s1)\<lparr>valveOpen_static := True\<rparr>
         else if valveOpen_static s1 \<and> highWater s1 \<le>s moistureLevel then
           (digitalWrite_ino LOW s1)\<lparr>valveOpen_static := False\<rparr>
         else s1)"

definition setup_ino :: "(16 word \<Rightarrow> 16 word) \<Rightarrow> 16 word \<Rightarrow> 16 word \<Rightarrow> sampler \<Rightarrow> sampler" where
  "setup_ino times_levelDelta potValue reading s =
     (let s1 = emit_ino NoInterrupts s;
          s2 = emit_ino (PinMode potPin INPUT) s1;
          s3 = emit_ino (AttachInterrupt potPin SetMoistureThreshold CHANGE) s2;
          s4 = emit_ino (PinMode valvePin OUTPUT) s3;
          s5 = digitalWrite_ino LOW s4;
          s6 = emit_ino (PinMode moistureSensorPin INPUT) s5;
          s7 = emit_ino (AttachInterrupt moistureSensorPin CheckMoisture CHANGE) s6;
          s8 = setMoistureThreshold times_levelDelta potValue s7;
          s9 = checkMoisture reading s8
      in emit_ino Interrupts s9)"

definition loop_ino :: "sampler \<Rightarrow> sampler" where
  "loop_ino s = emit_ino PowerDown s"

text \<open>
  One function that can stand for \<^verbatim>\<open>(int)(lowWater * levelDelta)\<close>: IEEE 754 binary32
  arithmetic with rounding to nearest, ties to even. The binary32 nearest to 1.01 is
  \<open>8472494 / 2 ^ 23\<close>; an \<open>int\<close> converts to \<open>float\<close> exactly; the exact product
  \<open>p / 2 ^ 23\<close> is rounded to 24 significant bits; the cast truncates towards zero. It
  serves to run the sketch on concrete readings; the theorems about
  \<open>setMoistureThreshold\<close> hold for every function in its place.
\<close>

fun bitlen :: "nat \<Rightarrow> nat" where
  "bitlen n = (if n = 0 then 0 else Suc (bitlen (n div 2)))"

declare bitlen.simps [simp del]

definition times_levelDelta_binary32 :: "16 word \<Rightarrow> 16 word" where
  "times_levelDelta_binary32 l =
     (let x = sint l;
          p = nat \<bar>x\<bar> * 8472494;
          k = bitlen p - 24;
          q = p div 2 ^ k;
          r = p mod 2 ^ k;
          q' = (if 2 ^ k < 2 * r \<or> (2 * r = 2 ^ k \<and> odd q) then q + 1 else q);
          m = int (q' * 2 ^ k div 2 ^ 23)
      in word_of_int (if x < 0 then - m else m))"


section \<open>The sampling rule as the specification words it\<close>

text \<open>
  "If valve is Closed and \<open>sample < low\<close>, open; if valve is Open and \<open>sample >= high\<close>,
  close", and nothing otherwise, on the numbers the sketch compares.
\<close>

datatype command = OpenValve | CloseValve | Nothing

definition spec_rule :: "bool \<Rightarrow> int \<Rightarrow> int \<Rightarrow> int \<Rightarrow> command" where
  "spec_rule is_open sample low high =
     (if \<not> is_open \<and> sample < low then OpenValve
      else if is_open \<and> high \<le> sample then CloseValve
      else Nothing)"

fun apply_command :: "command \<Rightarrow> sampler \<Rightarrow> sampler" where
  "apply_command OpenValve s =
     s\<lparr>valveOpen_static := True, valveLevel_ino := HIGH,
       trace_ino := trace_ino s @ [DigitalWrite valvePin HIGH]\<rparr>"
| "apply_command CloseValve s =
     s\<lparr>valveOpen_static := False, valveLevel_ino := LOW,
       trace_ino := trace_ino s @ [DigitalWrite valvePin LOW]\<rparr>"
| "apply_command Nothing s = s"


section \<open>Facts about the debounced sketch\<close>

subsection \<open>The primitives, field by field\<close>

lemma valve_writes_append: "valve_writes (xs @ ys) = valve_writes xs @ valve_writes ys"
  by (induction xs rule: valve_writes.induct) simp_all

lemma delay_value: "(ucast DEBOUNCE_DELAY_TIME :: 32 word) = 7"
  by (simp add: DEBOUNCE_DELAY_TIME_def CLOCK_SECONDS_PER_TICK_def)

lemma boot_fields:
  "valveOpen (boot lvl) = True" "debounceTimer (boot lvl) = 0" "valveLevel (boot lvl) = lvl"
  "comparatorISR (boot lvl) = None" "trace (boot lvl) = []"
  by (simp_all add: boot_def)

lemma emit_fields:
  "valveOpen (emit op s) = valveOpen s"
  "debounceTimer (emit op s) = debounceTimer s"
  "valveLevel (emit op s) = valveLevel s"
  "comparatorISR (emit op s) = comparatorISR s"
  "trace (emit op s) = trace s @ [op]"
  by (simp_all add: emit_def)

lemma enableInterrupt_fields:
  "valveOpen (enableInterrupt h t s) = valveOpen s"
  "valveLevel (enableInterrupt h t s) = valveLevel s"
  "debounceTimer (enableInterrupt h t s) = debounceTimer s"
  "comparatorISR (enableInterrupt h t s) = Some (h, t)"
  "trace (enableInterrupt h t s) = trace s @ [ComparatorEnableInterrupt h t]"
  by (simp_all add: enableInterrupt_def emit_def)

lemma open_gated: "debounceTimer s \<noteq> 0 \<Longrightarrow> openWaterValve s = s"
  by (simp add: openWaterValve_def)

lemma open_open: "valveOpen s \<Longrightarrow> openWaterValve s = s"
  by (simp add: openWaterValve_def)

lemma open_effect:
  "\<not> valveOpen s \<Longrightarrow> debounceTimer s = 0 \<Longrightarrow>
     openWaterValve s = s\<lparr>valveOpen := True, valveLevel := HIGH,
                           trace := trace s @ [DigitalWrite valvePin HIGH]\<rparr>"
  by (simp add: openWaterValve_def digitalWrite_def emit_def)

lemma open_fields:
  "valveOpen (openWaterValve s) = (valveOpen s \<or> debounceTimer s = 0)"
  "debounceTimer (openWaterValve s) = debounceTimer s"
  "comparatorISR (openWaterValve s) = comparatorISR s"
  "trace (openWaterValve s) =
     trace s @ (if \<not> valveOpen s \<and> debounceTimer s = 0 then [DigitalWrite valvePin HIGH] else [])"
  by (auto simp: openWaterValve_def digitalWrite_def emit_def)

lemma close_closed: "\<not> valveOpen s \<Longrightarrow> closeWaterValve s = s"
  by (simp add: closeWaterValve_def)

lemma close_effect:
  "valveOpen s \<Longrightarrow>
     closeWaterValve s = s\<lparr>valveOpen := False, debounceTimer := ucast DEBOUNCE_DELAY_TIME,
                            valveLevel := LOW, trace := trace s @ [DigitalWrite valvePin LOW]\<rparr>"
  by (simp add: closeWaterValve_def digitalWrite_def emit_def)

lemma close_result: "\<not> valveOpen (closeWaterValve s)"
  by (simp add: closeWaterValve_def digitalWrite_def emit_def)

lemma close_fields:
  "valveOpen (closeWaterValve s) = False"
  "debounceTimer (closeWaterValve s) =
     (if valveOpen s then ucast DEBOUNCE_DELAY_TIME else debounceTimer s)"
  "comparatorISR (closeWaterValve s) = comparatorISR s"
  "trace (closeWaterValve s) =
     trace s @ (if valveOpen s then [DigitalWrite valvePin LOW] else [])"
  by (auto simp: closeWaterValve_def digitalWrite_def emit_def)

lemma loop_fields:
  "valveOpen (loop s) = valveOpen s"
  "valveLevel (loop s) = valveLevel s"
  "comparatorISR (loop s) = comparatorISR s"
  "trace (loop s) = trace s @ [PowerDown]"
  by (simp_all add: loop_def emit_def Let_def)

lemma loop_timer: "unat (debounceTimer (loop s)) = unat (debounceTimer s) - 1"
proof (cases "debounceTimer s = 0")
  case True
  then show ?thesis by (simp add: loop_def emit_def Let_def)
next
  case False
  then have "0 < debounceTimer s" by (simp add: word_greater_zero_iff)
  then show ?thesis using False by (simp add: loop_def emit_def Let_def unat_minus_one)
qed

subsection \<open>The probe, the handlers and \<open>setup()\<close>\<close>

lemma probe_wet:
  "valveOpen (enableMoistureLevelInterrupts True s) = False"
  "debounceTimer (enableMoistureLevelInterrupts True s) =
     (if valveOpen s then ucast DEBOUNCE_DELAY_TIME else debounceTimer s)"
  "comparatorISR (enableMoistureLevelInterrupts True s) = Some (MoistureLevelLowInterrupt, FALLING)"
  "trace (enableMoistureLevelInterrupts True s) =
     trace s @ [ComparatorWait] @
     (if valveOpen s then [DigitalWrite valvePin LOW] else []) @
     [ComparatorEnableInterrupt MoistureLevelLowInterrupt FALLING]"
  by (simp_all add: enableMoistureLevelInterrupts_def Let_def enableInterrupt_fields close_fields
      emit_fields)

lemma low_isr:
  "valveOpen (moistureLevelLowInterrupt s) = (valveOpen s \<or> debounceTimer s = 0)"
  "debounceTimer (moistureLevelLowInterrupt s) = debounceTimer s"
  "comparatorISR (moistureLevelLowInterrupt s) = Some (MoistureLevelHighInterrupt, RISING)"
  "trace (moistureLevelLowInterrupt s) =
     trace s @ [ComparatorEnableInterrupt MoistureLevelHighInterrupt RISING] @
     (if \<not> valveOpen s \<and> debounceTimer s = 0 then [DigitalWrite valvePin HIGH] else [])"
  by (simp_all add: moistureLevelLowInterrupt_def enableInterrupt_fields open_fields)

lemma high_isr:
  "valveOpen (moistureLevelHighInterrupt s) = False"
  "debounceTimer (moistureLevelHighInterrupt s) =
     (if valveOpen s then ucast DEBOUNCE_DELAY_TIME else debounceTimer s)"
  "comparatorISR (moistureLevelHighInterrupt s) = Some (MoistureLevelLowInterrupt, FALLING)"
  "trace (moistureLevelHighInterrupt s) =
     trace s @ (if valveOpen s then [DigitalWrite valvePin LOW] else []) @
     [ComparatorEnableInterrupt MoistureLevelLowInterrupt FALLING]"
  by (simp_all add: moistureLevelHighInterrupt_def enableInterrupt_fields close_fields)

lemma setup_value:
  "setup_debounce wet (boot lvl) =
     \<lparr>valveOpen = False, debounceTimer = 7, valveLevel = LOW,
      comparatorISR = Some (if wet then (MoistureLevelLowInterrupt, FALLING)
                            else (MoistureLevelHighInterrupt, RISING)),
      trace = [NoInterrupts, PinMode valvePin OUTPUT, DigitalWrite valvePin LOW, ComparatorSetOn,
        ComparatorWait,
        if wet then ComparatorEnableInterrupt MoistureLevelLowInterrupt FALLING
        else ComparatorEnableInterrupt MoistureLevelHighInterrupt RISING,
        Interrupts]\<rparr>"
  by (simp add: setup_debounce_def boot_def Let_def emit_def closeWaterValve_def digitalWrite_def
    enableMoistureLevelInterrupts_def enableInterrupt_def openWaterValve_def delay_value)

lemma setup_state:
  "valveOpen (setup_debounce wet (boot lvl)) = False"
  "debounceTimer (setup_debounce wet (boot lvl)) = 7"
  "valveLevel (setup_debounce wet (boot lvl)) = LOW"
  "valve_writes (trace (setup_debounce wet (boot lvl))) = [LOW]"
  by (simp_all add: setup_debounce_def boot_def Let_def emit_def closeWaterValve_def digitalWrite_def
    enableMoistureLevelInterrupts_def enableInterrupt_def openWaterValve_def delay_value)

lemma setup_trace:
  "trace (setup_debounce wet (boot lvl)) =
     [NoInterrupts, PinMode valvePin OUTPUT, DigitalWrite valvePin LOW, ComparatorSetOn,
      ComparatorWait,
      if wet then ComparatorEnableInterrupt MoistureLevelLowInterrupt FALLING
      else ComparatorEnableInterrupt MoistureLevelHighInterrupt RISING,
      Interrupts]"
  by (simp add: setup_debounce_def boot_def Let_def emit_def closeWaterValve_def digitalWrite_def
    enableMoistureLevelInterrupts_def enableInterrupt_def openWaterValve_def delay_value)

lemma setup_armed:
  "comparatorISR (setup_debounce wet (boot lvl)) =
     Some (if wet then (MoistureLevelLowInterrupt, FALLING) else (MoistureLevelHighInterrupt, RISING))"
  by (simp add: setup_debounce_def boot_def Let_def emit_def closeWaterValve_def digitalWrite_def
    enableMoistureLevelInterrupts_def enableInterrupt_def openWaterValve_def delay_value)

lemma seven_ticks:
  "loop (loop (loop (loop (loop (loop (loop (setup_debounce True (boot LOW)))))))) =
     \<lparr>valveOpen = False, debounceTimer = 0, valveLevel = LOW,
      comparatorISR = Some (MoistureLevelLowInterrupt, FALLING),
      trace = [NoInterrupts, PinMode valvePin OUTPUT, DigitalWrite valvePin LOW, ComparatorSetOn,
        ComparatorWait, ComparatorEnableInterrupt MoistureLevelLowInterrupt FALLING, Interrupts,
        PowerDown, PowerDown, PowerDown, PowerDown, PowerDown, PowerDown, PowerDown]\<rparr>"
  by (simp add: setup_value loop_def emit_def Let_def)

subsection \<open>While the valve is closed and the timer runs\<close>

lemma isr_closed:
  assumes "\<not> valveOpen s" "debounceTimer s \<noteq> 0"
  shows "\<not> valveOpen (call_isr h s)" "valveLevel (call_isr h s) = valveLevel s"
    "valve_writes (trace (call_isr h s)) = valve_writes (trace s)"
    "debounceTimer (call_isr h s) = debounceTimer s"
proof -
  have a: "openWaterValve (enableInterrupt MoistureLevelHighInterrupt RISING s)
      = enableInterrupt MoistureLevelHighInterrupt RISING s"
    using assms by (simp add: open_gated enableInterrupt_fields)
  have b: "closeWaterValve s = s" using assms by (simp add: close_closed)
  show "\<not> valveOpen (call_isr h s)" "valveLevel (call_isr h s) = valveLevel s"
    "valve_writes (trace (call_isr h s)) = valve_writes (trace s)"
    "debounceTimer (call_isr h s) = debounceTimer s"
    using assms
    by (case_tac [!] h)
       (simp_all add: moistureLevelLowInterrupt_def moistureLevelHighInterrupt_def
          a b enableInterrupt_fields valve_writes_append)
qed

lemma edge_closed:
  assumes "\<not> valveOpen s" "debounceTimer s \<noteq> 0"
  shows "\<not> valveOpen (comparator_edge d s)" "valveLevel (comparator_edge d s) = valveLevel s"
    "valve_writes (trace (comparator_edge d s)) = valve_writes (trace s)"
    "debounceTimer (comparator_edge d s) = debounceTimer s"
  using isr_closed [OF assms] assms(1)
  by (simp_all add: comparator_edge_def split: option.split)

lemma step_closed:
  assumes "\<not> valveOpen s" "debounceTimer s \<noteq> 0"
  shows "\<not> valveOpen (step e s)" "valveLevel (step e s) = valveLevel s"
    "valve_writes (trace (step e s)) = valve_writes (trace s)"
    "unat (debounceTimer (step e s)) + ticks [e] = unat (debounceTimer s)"
proof -
  have pos: "0 < unat (debounceTimer s)"
    using assms(2) by (simp add: unat_gt_0)
  show "\<not> valveOpen (step e s)" "valveLevel (step e s) = valveLevel s"
    "valve_writes (trace (step e s)) = valve_writes (trace s)"
    "unat (debounceTimer (step e s)) + ticks [e] = unat (debounceTimer s)"
    using edge_closed [OF assms] assms(1) pos
    by (case_tac [!] e) (simp_all add: loop_fields loop_timer valve_writes_append)
qed

lemma run_closed:
  "\<not> valveOpen s \<Longrightarrow> ticks es < unat (debounceTimer s) \<Longrightarrow>
     \<not> valveOpen (run es s) \<and> valveLevel (run es s) = valveLevel s \<and>
     valve_writes (trace (run es s)) = valve_writes (trace s) \<and>
     unat (debounceTimer (run es s)) + ticks es = unat (debounceTimer s)"
proof (induction es arbitrary: s)
  case Nil
  then show ?case by simp
next
  case (Cons e es)
  from Cons.prems have nz: "debounceTimer s \<noteq> 0" by (auto simp: unat_eq_zero)
  note st = step_closed [OF Cons.prems(1) nz, of e]
  have "ticks es < unat (debounceTimer (step e s))"
    using Cons.prems(2) st(4) by (cases e) auto
  from Cons.IH [OF st(1) this] show ?case
    using st Cons.prems(2) by (cases e) auto
qed

lemma act_timer:
  "a \<noteq> Close \<Longrightarrow> unat (debounceTimer (act a s)) = unat (debounceTimer s) - (if a = Tick then 1 else 0)"
  by (cases a) (simp_all add: loop_timer openWaterValve_def digitalWrite_def emit_def)

lemma acts_timer:
  "Close \<notin> set as \<Longrightarrow>
     unat (debounceTimer (acts as s)) = unat (debounceTimer s) - count_list as Tick"
proof (induction as arbitrary: s)
  case Nil
  then show ?case by simp
next
  case (Cons a as)
  then have "a \<noteq> Close" "Close \<notin> set as" by auto
  then show ?case using Cons.IH [of "act a s"] act_timer [of a s] by simp
qed

lemma act_closed:
  assumes "a \<noteq> Close" "\<not> valveOpen s" "debounceTimer s \<noteq> 0"
  shows "\<not> valveOpen (act a s)" "valveLevel (act a s) = valveLevel s"
    "valve_writes (trace (act a s)) = valve_writes (trace s)"
  using assms by (case_tac [!] a) (simp_all add: open_gated loop_fields valve_writes_append)

lemma acts_closed:
  "Close \<notin> set as \<Longrightarrow> \<not> valveOpen s \<Longrightarrow> count_list as Tick < unat (debounceTimer s) \<Longrightarrow>
     \<not> valveOpen (acts as s) \<and> valveLevel (acts as s) = valveLevel s \<and>
     valve_writes (trace (acts as s)) = valve_writes (trace s)"
proof (induction as arbitrary: s)
  case Nil
  then show ?case by simp
next
  case (Cons a as)
  from Cons.prems have na: "a \<noteq> Close" and nas: "Close \<notin> set as" by auto
  from Cons.prems have nz: "debounceTimer s \<noteq> 0" by (auto simp: unat_eq_zero)
  note st = act_closed [OF na Cons.prems(2) nz]
  have "count_list as Tick < unat (debounceTimer (act a s))"
    using Cons.prems(3) act_timer [OF na, of s] by (simp split: if_splits)
  from Cons.IH [OF nas st(1) this] show ?case using st by simp
qed

lemma dry_step:
  assumes "\<not> valveOpen s" "comparatorISR s = Some (MoistureLevelHighInterrupt, RISING)"
    "e \<noteq> ComparatorEdge RISING"
  shows "\<not> valveOpen (step e s) \<and>
    comparatorISR (step e s) = Some (MoistureLevelHighInterrupt, RISING) \<and>
    valveLevel (step e s) = valveLevel s \<and>
    valve_writes (trace (step e s)) = valve_writes (trace s)"
proof (cases e)
  case WakeTick
  then show ?thesis using assms by (simp add: loop_fields valve_writes_append)
next
  case (ComparatorEdge d)
  with assms(3) have "RISING \<noteq> d" by auto
  then have "step e s = s"
    using assms(2) ComparatorEdge by (simp add: comparator_edge_def)
  then show ?thesis using assms by simp
qed

lemma dry_run:
  "\<not> valveOpen s \<Longrightarrow> comparatorISR s = Some (MoistureLevelHighInterrupt, RISING) \<Longrightarrow>
   ComparatorEdge RISING \<notin> set es \<Longrightarrow>
     \<not> valveOpen (run es s) \<and>
     comparatorISR (run es s) = Some (MoistureLevelHighInterrupt, RISING) \<and>
     valveLevel (run es s) = valveLevel s \<and>
     valve_writes (trace (run es s)) = valve_writes (trace s)"
proof (induction es arbitrary: s)
  case Nil
  then show ?case by simp
next
  case (Cons e es)
  from Cons.prems(3) have ne: "e \<noteq> ComparatorEdge RISING"
    and rest: "ComparatorEdge RISING \<notin> set es" by auto
  note st = dry_step [OF Cons.prems(1,2) ne]
  from st have a: "\<not> valveOpen (step e s)"
    and b: "comparatorISR (step e s) = Some (MoistureLevelHighInterrupt, RISING)" by simp_all
  from Cons.IH [OF a b rest] st show ?case by simp
qed

subsection \<open>Writes and changes of the commanded state\<close>

lemma act_writes:
  "valve_writes (trace (act a s)) =
     valve_writes (trace s) @ transitions (valveOpen s) [valveOpen (act a s)]"
proof (cases a)
  case Open
  show ?thesis
  proof (cases "\<not> valveOpen s \<and> debounceTimer s = 0")
    case True
    then show ?thesis using Open open_effect [of s]
      by (simp add: valve_writes_append level_of_def)
  next
    case False
    then have "openWaterValve s = s" by (auto simp: open_gated open_open)
    then show ?thesis using Open by simp
  qed
next
  case Close
  show ?thesis
  proof (cases "valveOpen s")
    case True
    then show ?thesis using Close close_effect [of s]
      by (simp add: valve_writes_append level_of_def)
  next
    case False
    then show ?thesis using Close by (simp add: close_closed)
  qed
next
  case Tick
  then show ?thesis by (simp add: loop_fields valve_writes_append)
qed

lemma acts_writes:
  "valve_writes (trace (acts as s)) =
     valve_writes (trace s) @ transitions (valveOpen s) (history as s)"
proof (induction as arbitrary: s)
  case Nil
  then show ?case by simp
next
  case (Cons a as)
  show ?case using Cons.IH [of "act a s"] act_writes [of a s] by simp
qed

lemma act_level:
  "valveLevel s = level_of (valveOpen s) \<Longrightarrow> valveLevel (act a s) = level_of (valveOpen (act a s))"
proof (cases a)
  case Open
  assume l: "valveLevel s = level_of (valveOpen s)"
  show ?thesis
  proof (cases "\<not> valveOpen s \<and> debounceTimer s = 0")
    case True
    then show ?thesis using Open open_effect [of s] by (simp add: level_of_def)
  next
    case False
    then have "openWaterValve s = s" by (auto simp: open_gated open_open)
    then show ?thesis using Open l by simp
  qed
next
  case Close
  assume l: "valveLevel s = level_of (valveOpen s)"
  show ?thesis
  proof (cases "valveOpen s")
    case True
    then show ?thesis using Close close_effect [of s] by (simp add: level_of_def)
  next
    case False
    then show ?thesis using Close l by (simp add: close_closed)
  qed
next
  case Tick
  assume "valveLevel s = level_of (valveOpen s)"
  then show ?thesis using Tick by (simp add: loop_fields)
qed

lemma acts_level:
  "valveLevel s = level_of (valveOpen s) \<Longrightarrow>
     valveLevel (acts as s) = level_of (valveOpen (acts as s))"
  by (induction as arbitrary: s) (simp_all add: act_level)

lemma open_twice_writes:
  "valve_writes (trace (openWaterValve (openWaterValve s))) =
     valve_writes (trace s) @ (if \<not> valveOpen s \<and> debounceTimer s = 0 then [HIGH] else [])"
proof (cases "\<not> valveOpen s \<and> debounceTimer s = 0")
  case True
  then show ?thesis using open_effect [of s]
    by (simp add: open_open valve_writes_append)
next
  case False
  then have "openWaterValve s = s" by (auto simp: open_gated open_open)
  then show ?thesis using False by auto
qed

subsection \<open>The enabled handler and its direction\<close>

lemma step_paired: "paired s \<Longrightarrow> paired (step e s)"
  by (cases e) (auto simp: paired_def loop_fields comparator_edge_def low_isr high_isr split: if_splits)

lemma run_paired: "paired s \<Longrightarrow> paired (run es s)"
  by (induction es arbitrary: s) (simp_all add: step_paired)

lemma setup_paired: "paired (setup_debounce wet (boot lvl))"
  by (simp add: paired_def setup_armed)

lemma isr_paired: "paired (call_isr h s)"
  by (cases h) (simp_all add: paired_def low_isr high_isr)

lemma loop_paired: "paired (loop s) = paired s"
  by (simp add: paired_def loop_fields)

lemma isr_opposite:
  "paired s \<Longrightarrow> comparatorISR s = Some (h, d) \<Longrightarrow> armed (call_isr h s) = Some (opposite d)"
  by (auto simp: paired_def armed_def low_isr high_isr)

lemma ArmedEdge_simps:
  "comparatorISR s = Some (h, FALLING) \<Longrightarrow> ArmedEdge s = Some Rising"
  "comparatorISR s = Some (h, RISING) \<Longrightarrow> ArmedEdge s = Some Falling"
  by (simp_all add: ArmedEdge_def armed_def)


section \<open>Facts about the plain comparator sketch\<close>

lemma plain_traces:
  "trace_plain (moistureLowInterrupt p) =
     trace_plain p @ [DigitalWrite valvePin HIGH,
                      ComparatorEnableInterrupt MoistureHighInterrupt FALLING]"
  "trace_plain (moistureHighInterrupt p) =
     trace_plain p @ [DigitalWrite valvePin LOW,
                      ComparatorEnableInterrupt MoistureLowInterrupt RISING]"
  by (simp_all add: moistureLowInterrupt_def moistureHighInterrupt_def enableInterrupt_plain_def
      emit_plain_def openWaterValve_plain_def closeWaterValve_plain_def digitalWrite_plain_def)

lemma plain_actuator_writes:
  "valve_writes (trace_plain (openWaterValve_plain p)) = valve_writes (trace_plain p) @ [HIGH]"
  "valve_writes (trace_plain (closeWaterValve_plain p)) = valve_writes (trace_plain p) @ [LOW]"
  by (simp_all add: openWaterValve_plain_def closeWaterValve_plain_def digitalWrite_plain_def
      emit_plain_def valve_writes_append)

lemma setup_plain_trace:
  "trace_plain (setup_plain (boot_plain lvl)) =
     [NoInterrupts, PinMode valvePin OUTPUT, DigitalWrite valvePin LOW, ComparatorSetOn,
      ComparatorEnableInterrupt MoistureLowInterrupt FALLING, Interrupts]"
  by (simp add: setup_plain_def boot_plain_def Let_def emit_plain_def digitalWrite_plain_def
      enableInterrupt_plain_def)


section \<open>Facts about the sampling sketch\<close>

lemma map_long_identity: "map_long x 0 1023 0 1023 = x"
  by (simp add: map_long_def signed_divide_int_def abs_mult sgn_mult mult_sgn_abs)

lemma word_of_map_long: "(word_of_int (map_long (sint w) 0 1023 0 1023) :: 16 word) = w"
  by (simp add: map_long_identity)

lemma emit_ino_fields:
  "lowWater (emit_ino op s) = lowWater s"
  "highWater (emit_ino op s) = highWater s"
  "valveOpen_static (emit_ino op s) = valveOpen_static s"
  "valveLevel_ino (emit_ino op s) = valveLevel_ino s"
  "trace_ino (emit_ino op s) = trace_ino s @ [op]"
  by (simp_all add: emit_ino_def)

lemma sint_in_range:
  fixes w :: "16 word"
  assumes "0 \<le>s w" "w \<le>s 1023"
  shows "0 \<le> sint w" "sint w \<le> 1023"
  using assms by (simp_all add: word_sle_eq)

lemma sint_succ:
  fixes w :: "16 word"
  assumes "0 \<le>s w" "w \<le>s 1023"
  shows "sint (w + 1) = sint w + 1"
proof -
  have r: "0 \<le> sint w" "sint w \<le> 1023" using sint_in_range [OF assms] .
  have "sint (w + 1) = signed_take_bit 15 (sint w + 1)"
    by (simp add: sint_word_ariths)
  also have "\<dots> = sint w + 1"
    using r by (intro signed_take_bit_int_eq_self) simp_all
  finally show ?thesis .
qed

lemma setMoistureThreshold_fields:
  "lowWater (setMoistureThreshold f potValue s) = potValue"
  "highWater (setMoistureThreshold f potValue s) =
     (if f potValue \<le>s potValue then potValue + 1 else f potValue)"
  "valveOpen_static (setMoistureThreshold f potValue s) = valveOpen_static s"
  "valveLevel_ino (setMoistureThreshold f potValue s) = valveLevel_ino s"
  "trace_ino (setMoistureThreshold f potValue s) = trace_ino s @ [AnalogRead potPin]"
  by (simp_all add: setMoistureThreshold_def Let_def word_of_map_long emit_ino_fields)

lemma round_near_aux:
  fixes a m c p :: nat
  assumes "a + m = p" "m < c"
  shows "p \<le> (if P then a + c else a) + c" "(if P then a + c else a) \<le> p + c"
  using assms by auto

lemma round_near:
  fixes p k :: nat
  shows "p \<le> (if P then p div 2 ^ k + 1 else p div 2 ^ k) * 2 ^ k + 2 ^ k"
    and "(if P then p div 2 ^ k + 1 else p div 2 ^ k) * 2 ^ k \<le> p + 2 ^ k"
proof -
  have e: "p div 2 ^ k * 2 ^ k + p mod 2 ^ k = p" by (rule div_mult_mod_eq)
  have b: "p mod 2 ^ k < (2::nat) ^ k" by simp
  have x: "(if P then p div 2 ^ k + 1 else p div 2 ^ k) * 2 ^ k =
      (if P then p div 2 ^ k * 2 ^ k + 2 ^ k else p div 2 ^ k * 2 ^ k)"
    by (simp add: add_mult_distrib)
  show "p \<le> (if P then p div 2 ^ k + 1 else p div 2 ^ k) * 2 ^ k + 2 ^ k"
    unfolding x by (rule round_near_aux(1) [OF e b])
  show "(if P then p div 2 ^ k + 1 else p div 2 ^ k) * 2 ^ k \<le> p + 2 ^ k"
    unfolding x by (rule round_near_aux(2) [OF e b])
qed

lemma s_mod: "(l::nat) * 101 mod 100 = l mod 100"
proof -
  have "l * 101 = l + 100 * l" by simp
  then show ?thesis by (simp only: mod_mult_self2)
qed

lemma bitlen_le: "p < 2 ^ n \<Longrightarrow> bitlen p \<le> n"
proof (induction n arbitrary: p)
  case 0
  then show ?case by (simp add: bitlen.simps)
next
  case (Suc n)
  show ?case
  proof (cases "p = 0")
    case True
    then show ?thesis by (simp add: bitlen.simps)
  next
    case False
    from Suc.prems have "p div 2 < 2 ^ n" by simp
    from Suc.IH [OF this] show ?thesis using False by (subst bitlen.simps) simp
  qed
qed

lemma inflate_lower:
  fixes l t s :: nat
  assumes "l * 101 = 100 * t + s" "1 \<le> s" "l \<le> 1023" "l * 8472494 \<le> X + k" "k \<le> 1024"
  shows "8388608 * t \<le> X"
  using assms by linarith

lemma inflate_upper:
  fixes l t s :: nat
  assumes "l * 101 = 100 * t + s" "s \<le> 99" "X \<le> l * 8472494 + k" "k \<le> 1024"
  shows "X < 8388608 * Suc t"
proof -
  have "X < 8388608 * t + 8388608" using assms by linarith
  then show ?thesis by simp
qed

lemma binary32_step_nat:
  fixes l :: nat
  assumes "l \<le> 1023" and "l mod 100 \<noteq> 0"
  shows "(let p = l * 8472494;
              k = bitlen p - 24;
              q = p div 2 ^ k;
              r = p mod 2 ^ k;
              q' = (if 2 ^ k < 2 * r \<or> (2 * r = 2 ^ k \<and> odd q) then q + 1 else q)
          in q' * 2 ^ k div 2 ^ 23) = l * 101 div 100"
proof -
  define p where "p = l * 8472494"
  define k where "k = bitlen p - 24"
  define X where "X = (if 2 ^ k < 2 * (p mod 2 ^ k) \<or> (2 * (p mod 2 ^ k) = 2 ^ k \<and> odd (p div 2 ^ k))
      then p div 2 ^ k + 1 else p div 2 ^ k) * 2 ^ k"
  define t where "t = l * 101 div 100"
  define s where "s = l * 101 mod 100"
  have ts: "l * 101 = 100 * t + s" unfolding t_def s_def by simp
  have "s = l mod 100" unfolding s_def by (rule s_mod)
  then have s1: "1 \<le> s" using assms(2) by simp
  have s2: "s \<le> 99" unfolding s_def by simp
  have "l * 8472494 \<le> 1023 * 8472494" using assms(1) by (rule mult_le_mono1)
  then have "p < 2 ^ 34" unfolding p_def by simp
  then have "bitlen p \<le> 34" by (rule bitlen_le)
  then have "k \<le> 10" unfolding k_def by linarith
  then have "(2::nat) ^ k \<le> 2 ^ 10" by (intro power_increasing) simp_all
  then have k: "(2::nat) ^ k \<le> 1024" by simp
  have lo: "p \<le> X + 2 ^ k" unfolding X_def by (rule round_near(1))
  have hi: "X \<le> p + 2 ^ k" unfolding X_def by (rule round_near(2))
  have "8388608 * t \<le> X" using ts s1 assms(1) lo [unfolded p_def] k by (rule inflate_lower)
  moreover have "X < 8388608 * Suc t" using ts s2 hi [unfolded p_def] k by (rule inflate_upper)
  ultimately have "X div 8388608 = t" by (rule div_nat_eqI)
  then show ?thesis
    unfolding Let_def X_def k_def p_def t_def by simp
qed

lemma binary32_step_hundreds:
  "list_all (\<lambda>l. (let p = l * 8472494;
              k = bitlen p - 24;
              q = p div 2 ^ k;
              r = p mod 2 ^ k;
              q' = (if 2 ^ k < 2 * r \<or> (2 * r = 2 ^ k \<and> odd q) then q + 1 else q)
          in q' * 2 ^ k div 2 ^ 23) = l * 101 div 100)
     [0, 100, 200, 300, 400, 500, 600, 700, 800, 900, 1000 :: nat]"
  unfolding list_all_Cons_iff list_all_Nil_iff Let_def by (simp add: bitlen.simps)

lemma hundreds:
  fixes l :: nat
  assumes "l \<le> 1023" "l mod 100 = 0"
  shows "l \<in> set [0, 100, 200, 300, 400, 500, 600, 700, 800, 900, 1000]"
proof -
  define j where "j = l div 100"
  have l: "l = 100 * j" using assms(2) unfolding j_def by auto
  have "j \<le> 10" using assms(1) l by linarith
  then have "j = 0 \<or> j = 1 \<or> j = 2 \<or> j = 3 \<or> j = 4 \<or> j = 5 \<or> j = 6 \<or> j = 7 \<or> j = 8 \<or>
      j = 9 \<or> j = 10" by arith
  then show ?thesis using l by auto
qed

lemma binary32_step_all:
  fixes l :: nat
  assumes "l \<le> 1023"
  shows "(let p = l * 8472494;
              k = bitlen p - 24;
              q = p div 2 ^ k;
              r = p mod 2 ^ k;
              q' = (if 2 ^ k < 2 * r \<or> (2 * r = 2 ^ k \<and> odd q) then q + 1 else q)
          in q' * 2 ^ k div 2 ^ 23) = l * 101 div 100"
proof (cases "l mod 100 = 0")
  case True
  from hundreds [OF assms True] show ?thesis
    using binary32_step_hundreds [unfolded list_all_iff] by blast
next
  case False
  with assms show ?thesis by (rule binary32_step_nat)
qed

lemma times_levelDelta_binary32_inflates:
  assumes "0 \<le>s w" and "w \<le>s 1023"
  shows "sint (times_levelDelta_binary32 w) = sint w * 101 div 100"
proof -
  define l where "l = nat (sint w)"
  have r: "0 \<le> sint w" "sint w \<le> 1023" using assms by (simp_all add: word_sle_eq)
  then have l: "sint w = int l" "l \<le> 1023" "nat \<bar>sint w\<bar> = l" unfolding l_def by simp_all
  define m where "m = l * 101 div 100"
  have m: "m \<le> 1033" using l(2) unfolding m_def by linarith
  have neg: "\<not> sint w < 0" using r(1) by simp
  have "times_levelDelta_binary32 w = word_of_int (int m)"
    unfolding times_levelDelta_binary32_def Let_def l(3) m_def
      binary32_step_all [OF l(2), unfolded Let_def]
    using neg by (simp only: if_False)
  moreover have "sint (word_of_int (int m) :: 16 word) = int m"
  proof -
    have "sint (word_of_int (int m) :: 16 word) = signed_take_bit (LENGTH(16) - 1) (int m)"
      by (rule sint_sbintrunc')
    also have "\<dots> = int m"
      using m by (intro signed_take_bit_int_eq_self) simp_all
    finally show ?thesis .
  qed
  moreover have "int m = sint w * 101 div 100"
    unfolding m_def l(1) by (simp add: zdiv_int)
  ultimately show ?thesis by simp
qed

lemma times_levelDelta_values:
  "times_levelDelta_binary32 500 = 505"
  "times_levelDelta_binary32 50 = 50"
  unfolding times_levelDelta_binary32_def Let_def by (simp_all add: bitlen.simps)

lemma setup_ino_trace:
  "trace_ino (setup_ino f potValue reading (boot_ino lvl)) =
     [NoInterrupts, PinMode potPin INPUT, AttachInterrupt potPin SetMoistureThreshold CHANGE,
      PinMode valvePin OUTPUT, DigitalWrite valvePin LOW, PinMode moistureSensorPin INPUT,
      AttachInterrupt moistureSensorPin CheckMoisture CHANGE, AnalogRead potPin,
      AnalogRead moistureSensorPin] @
     (if reading <s potValue then [DigitalWrite valvePin HIGH] else []) @ [Interrupts]"
  by (simp add: setup_ino_def boot_ino_def Let_def emit_ino_def digitalWrite_ino_def
      setMoistureThreshold_def checkMoisture_def word_of_map_long)

lemma thresholds_ordered_any_step:
  assumes "0 \<le>s potValue" and "potValue \<le>s 1023"
  shows "(let s' = setMoistureThreshold times_levelDelta potValue s in
           lowWater s' = potValue \<and>
           lowWater s' <s highWater s' \<and>
           highWater s' =
             (if times_levelDelta potValue \<le>s potValue then potValue + 1
              else times_levelDelta potValue) \<and>
           sint (highWater s') = max (sint (lowWater s') + 1) (sint (times_levelDelta (lowWater s'))) \<and>
           valveOpen_static s' = valveOpen_static s \<and>
           valveLevel_ino s' = valveLevel_ino s \<and>
           trace_ino s' = trace_ino s @ [AnalogRead potPin])"
proof -
  let ?f = "times_levelDelta potValue"
  let ?h = "if ?f \<le>s potValue then potValue + 1 else ?f"
  have succ: "sint (potValue + 1) = sint potValue + 1"
    using sint_succ [OF assms] .
  have lt: "potValue <s ?h"
    using succ by (auto simp: word_sless_alt word_sle_eq)
  have mx: "sint ?h = max (sint potValue + 1) (sint ?f)"
    using succ by (auto simp: word_sle_eq max_def)
  show ?thesis
    using lt mx by (simp add: Let_def setMoistureThreshold_fields)
qed


section \<open>The claims\<close>

text \<open>
  Claim C1. The claim is that a dry reading at initialization leaves the valve open. The
  sketch tries: the dry branch of the probe calls \<open>openWaterValve()\<close>. But the probe runs
  only in \<open>setup()\<close>, directly after \<open>setup()\<close>'s own \<open>closeWaterValve()\<close>, which has
  just closed the valve and set \<open>debounceTimer\<close> to 7, so the open is refused. \<open>setup()\<close>
  ends with the valve closed, the pin low and the high-level (closing) handler enabled on
  the comparator's rising edge, the watch for dry to wet. Nothing tries the open again:
  through every later sequence of wake ticks and comparator edges without a rising edge
  the valve stays closed and the pin is never written, however many ticks pass.
\<close>

theorem dry_boot_never_opens:
  "(let b = setup_debounce False (boot lvl) in
      \<not> valveOpen b \<and> valveLevel b = LOW \<and>
      debounceTimer b = ucast DEBOUNCE_DELAY_TIME \<and>
      comparatorISR b = Some (MoistureLevelHighInterrupt, RISING) \<and>
      ArmedEdge b = Some Falling \<and>
      trace b =
        [NoInterrupts, PinMode valvePin OUTPUT, DigitalWrite valvePin LOW, ComparatorSetOn,
         ComparatorWait, ComparatorEnableInterrupt MoistureLevelHighInterrupt RISING,
         Interrupts]) \<and>
   (ComparatorEdge RISING \<notin> set es \<longrightarrow>
      (let r = run es (setup_debounce False (boot lvl)) in
         \<not> valveOpen r \<and> valveLevel r = LOW \<and> valve_writes (trace r) = [LOW]))"
proof -
  let ?b = "setup_debounce False (boot lvl)"
  have v: "\<not> valveOpen ?b" "valveLevel ?b = LOW" "debounceTimer ?b = ucast DEBOUNCE_DELAY_TIME"
    "valve_writes (trace ?b) = [LOW]"
    by (simp_all add: setup_state delay_value)
  have c: "comparatorISR ?b = Some (MoistureLevelHighInterrupt, RISING)"
    by (simp add: setup_armed)
  have t: "trace ?b =
      [NoInterrupts, PinMode valvePin OUTPUT, DigitalWrite valvePin LOW, ComparatorSetOn,
       ComparatorWait, ComparatorEnableInterrupt MoistureLevelHighInterrupt RISING, Interrupts]"
    by (simp add: setup_trace)
  have r: "\<not> valveOpen (run es ?b) \<and> valveLevel (run es ?b) = LOW \<and>
      valve_writes (trace (run es ?b)) = [LOW]"
    if "ComparatorEdge RISING \<notin> set es"
    using dry_run [OF v(1) c that] v by simp
  have a: "ArmedEdge ?b = Some Falling" using c by (rule ArmedEdge_simps(2))
  show ?thesis using v c a t r by (simp add: Let_def)
qed

theorem dry_boot_never_opens_witness:
  "ComparatorEdge RISING \<notin>
     set [WakeTick, WakeTick, WakeTick, WakeTick, WakeTick, WakeTick, WakeTick, WakeTick,
          ComparatorEdge FALLING, WakeTick, ComparatorEdge FALLING] \<and>
   \<not> valveOpen (run [WakeTick, WakeTick, WakeTick, WakeTick, WakeTick, WakeTick, WakeTick,
          WakeTick, ComparatorEdge FALLING, WakeTick, ComparatorEdge FALLING]
        (setup_debounce False (boot HIGH))) \<and>
   valve_writes (trace (run [WakeTick, WakeTick, WakeTick, WakeTick, WakeTick, WakeTick,
          WakeTick, WakeTick, ComparatorEdge FALLING, WakeTick, ComparatorEdge FALLING]
        (setup_debounce False (boot HIGH)))) = [LOW] \<and>
   debounceTimer (run [WakeTick, WakeTick, WakeTick, WakeTick, WakeTick, WakeTick, WakeTick,
          WakeTick, ComparatorEdge FALLING, WakeTick, ComparatorEdge FALLING]
        (setup_debounce False (boot HIGH))) = 0"
proof -
  let ?es = "[WakeTick, WakeTick, WakeTick, WakeTick, WakeTick, WakeTick, WakeTick, WakeTick,
          ComparatorEdge FALLING, WakeTick, ComparatorEdge FALLING]"
  have h: "ComparatorEdge RISING \<notin> set ?es" by simp
  from dry_boot_never_opens [of HIGH ?es] h
  have g: "\<not> valveOpen (run ?es (setup_debounce False (boot HIGH)))"
    "valve_writes (trace (run ?es (setup_debounce False (boot HIGH)))) = [LOW]"
    unfolding Let_def by blast+
  have z: "debounceTimer (run ?es (setup_debounce False (boot HIGH))) = 0"
    by (simp add: setup_value loop_def emit_def Let_def comparator_edge_def)
  show ?thesis using h g z by blast
qed

text \<open>
  Claim C2. After \<open>closeWaterValve()\<close> the valve is closed. An \<open>openWaterValve()\<close>
  while \<open>debounceTimer\<close> is not zero changes nothing at all. Through every sequence of
  open attempts and wake ticks after the close with fewer ticks than the timer holds, the
  valve stays closed and the pin is not written. Once the ticks have brought the timer to
  zero, an open attempt finds the valve open or opens it, with one \<open>HIGH\<close> write.
\<close>

theorem open_waits_for_debounce:
  "\<not> valveOpen (closeWaterValve s) \<and>
   (debounceTimer t \<noteq> 0 \<longrightarrow> openWaterValve t = t) \<and>
   (Close \<notin> set as \<and> count_list as Tick < unat (debounceTimer (closeWaterValve s)) \<longrightarrow>
      (let c = closeWaterValve s; r = acts as c in
         \<not> valveOpen r \<and> valveLevel r = valveLevel c \<and>
         valve_writes (trace r) = valve_writes (trace c))) \<and>
   (Close \<notin> set as \<and> unat (debounceTimer (closeWaterValve s)) \<le> count_list as Tick \<longrightarrow>
      (let r = acts as (closeWaterValve s) in
         debounceTimer r = 0 \<and> valveOpen (openWaterValve r) \<and>
         (\<not> valveOpen r \<longrightarrow>
            openWaterValve r = r\<lparr>valveOpen := True, valveLevel := HIGH,
                                   trace := trace r @ [DigitalWrite valvePin HIGH]\<rparr>)))"
proof -
  let ?c = "closeWaterValve s"
  have a: "\<not> valveOpen ?c" by (rule close_result)
  have b: "debounceTimer t \<noteq> 0 \<longrightarrow> openWaterValve t = t" by (simp add: open_gated)
  have c: "\<not> valveOpen (acts as ?c) \<and> valveLevel (acts as ?c) = valveLevel ?c \<and>
      valve_writes (trace (acts as ?c)) = valve_writes (trace ?c)"
    if "Close \<notin> set as" "count_list as Tick < unat (debounceTimer ?c)"
    using acts_closed [OF that(1) a that(2)] .
  have d: "debounceTimer (acts as ?c) = 0 \<and> valveOpen (openWaterValve (acts as ?c)) \<and>
      (\<not> valveOpen (acts as ?c) \<longrightarrow>
         openWaterValve (acts as ?c) = (acts as ?c)\<lparr>valveOpen := True, valveLevel := HIGH,
            trace := trace (acts as ?c) @ [DigitalWrite valvePin HIGH]\<rparr>)"
    if "Close \<notin> set as" "unat (debounceTimer ?c) \<le> count_list as Tick"
  proof -
    have z: "debounceTimer (acts as ?c) = 0"
      using acts_timer [OF that(1), of ?c] that(2) by (simp add: unat_eq_zero)
    show ?thesis
    proof (cases "valveOpen (acts as ?c)")
      case True
      then show ?thesis using z by (simp add: open_open)
    next
      case False
      then show ?thesis using z open_effect [OF False z] by simp
    qed
  qed
  show ?thesis using a b c d by (simp add: Let_def)
qed

theorem open_waits_for_debounce_witness:
  "debounceTimer (closeWaterValve (boot HIGH)) \<noteq> 0 \<and>
   openWaterValve (closeWaterValve (boot HIGH)) = closeWaterValve (boot HIGH) \<and>
   Close \<notin> set [Open, Tick, Open, Tick, Tick, Open] \<and>
   count_list [Open, Tick, Open, Tick, Tick, Open] Tick
     < unat (debounceTimer (closeWaterValve (boot HIGH))) \<and>
   \<not> valveOpen (acts [Open, Tick, Open, Tick, Tick, Open] (closeWaterValve (boot HIGH))) \<and>
   valve_writes (trace (acts [Open, Tick, Open, Tick, Tick, Open] (closeWaterValve (boot HIGH))))
     = [LOW] \<and>
   Close \<notin> set [Tick, Open, Tick, Tick, Tick, Tick, Tick, Tick] \<and>
   unat (debounceTimer (closeWaterValve (boot HIGH)))
     \<le> count_list [Tick, Open, Tick, Tick, Tick, Tick, Tick, Tick] Tick \<and>
   \<not> valveOpen (acts [Tick, Open, Tick, Tick, Tick, Tick, Tick, Tick] (closeWaterValve (boot HIGH))) \<and>
   valveOpen (openWaterValve
     (acts [Tick, Open, Tick, Tick, Tick, Tick, Tick, Tick] (closeWaterValve (boot HIGH)))) \<and>
   valve_writes (trace (openWaterValve
     (acts [Tick, Open, Tick, Tick, Tick, Tick, Tick, Tick] (closeWaterValve (boot HIGH)))))
     = [LOW, HIGH]"
proof -
  let ?c = "closeWaterValve (boot HIGH)"
  let ?as = "[Open, Tick, Open, Tick, Tick, Open]"
  let ?bs = "[Tick, Open, Tick, Tick, Tick, Tick, Tick, Tick]"
  have c: "debounceTimer ?c = 7" "valve_writes (trace ?c) = [LOW]"
    by (simp_all add: boot_def closeWaterValve_def digitalWrite_def emit_def delay_value)
  have h1: "Close \<notin> set ?as \<and> count_list ?as Tick < unat (debounceTimer ?c)"
    by (simp add: c)
  have h2: "Close \<notin> set ?bs \<and> unat (debounceTimer ?c) \<le> count_list ?bs Tick"
    by (simp add: c)
  have n: "debounceTimer ?c \<noteq> 0" by (simp add: c)
  note t1 = open_waits_for_debounce [of "boot HIGH" ?c ?as]
  note t2 = open_waits_for_debounce [of "boot HIGH" ?c ?bs]
  from t1 n have g1: "openWaterValve ?c = ?c" by blast
  from t1 h1 have g2: "\<not> valveOpen (acts ?as ?c)" "valve_writes (trace (acts ?as ?c)) = [LOW]"
    unfolding Let_def using c(2) by auto
  from t2 h2 have g3: "valveOpen (openWaterValve (acts ?bs ?c))"
    unfolding Let_def by blast
  have r: "\<not> valveOpen (acts ?bs ?c)" "valve_writes (trace (acts ?bs ?c)) = [LOW]"
    using acts_closed [of "[Tick, Open, Tick, Tick, Tick, Tick, Tick]" ?c] close_result [of "boot HIGH"]
    by (simp_all add: c loop_fields valve_writes_append)
  from t2 h2 r(1) have "openWaterValve (acts ?bs ?c) = (acts ?bs ?c)\<lparr>valveOpen := True,
      valveLevel := HIGH, trace := trace (acts ?bs ?c) @ [DigitalWrite valvePin HIGH]\<rparr>"
    unfolding Let_def by blast
  then have g4: "valve_writes (trace (openWaterValve (acts ?bs ?c))) = [LOW, HIGH]"
    using r(2) by (simp add: valve_writes_append)
  show ?thesis using n g1 h1 g2 h2 r(1) g3 g4 by blast
qed

text \<open>
  Claim C3, as amended. In the debounced sketch, for every sequence of actuator calls and
  wake ticks, the writes to the valve pin are exactly the changes of \<open>valveOpen\<close>, in
  order: \<open>HIGH\<close> for a change to open, \<open>LOW\<close> for a change to closed, and none where
  the state stays. Two calls of \<open>openWaterValve()\<close> in succession issue one write when the
  valve was closed with the timer at zero, and none otherwise. If the pin level mirrors
  \<open>valveOpen\<close> at the start it does so at the end. The plain comparator sketch keeps no
  valve state: each of its actuator functions writes the pin on every call.
\<close>

theorem writes_are_transitions:
  "valve_writes (trace (acts as s)) =
     valve_writes (trace s) @ transitions (valveOpen s) (history as s) \<and>
   valve_writes (trace (openWaterValve (openWaterValve s))) =
     valve_writes (trace s) @ (if \<not> valveOpen s \<and> debounceTimer s = 0 then [HIGH] else []) \<and>
   (valveLevel s = level_of (valveOpen s) \<longrightarrow>
      valveLevel (acts as s) = level_of (valveOpen (acts as s))) \<and>
   valve_writes (trace_plain (openWaterValve_plain p)) = valve_writes (trace_plain p) @ [HIGH] \<and>
   valve_writes (trace_plain (closeWaterValve_plain p)) = valve_writes (trace_plain p) @ [LOW]"
  using acts_writes [of as s] open_twice_writes [of s] acts_level [of s as]
    plain_actuator_writes [of p]
  by blast

theorem writes_are_transitions_witness:
  "valve_writes (trace (acts [Open, Open, Close, Close, Open, Tick, Open]
      ((boot LOW)\<lparr>valveOpen := False\<rparr>))) = [HIGH, LOW] \<and>
   history [Open, Open, Close, Close, Open, Tick, Open] ((boot LOW)\<lparr>valveOpen := False\<rparr>) =
     [True, True, False, False, False, False, False] \<and>
   valve_writes (trace (openWaterValve (openWaterValve ((boot LOW)\<lparr>valveOpen := False\<rparr>)))) =
     [HIGH] \<and>
   valveLevel ((boot LOW)\<lparr>valveOpen := False\<rparr>) = level_of (valveOpen ((boot LOW)\<lparr>valveOpen := False\<rparr>)) \<and>
   valveLevel (acts [Open, Open, Close, Close, Open, Tick, Open]
      ((boot LOW)\<lparr>valveOpen := False\<rparr>)) = LOW"
proof -
  let ?s = "(boot LOW)\<lparr>valveOpen := False\<rparr>"
  let ?as = "[Open, Open, Close, Close, Open, Tick, Open]"
  have h: "history ?as ?s = [True, True, False, False, False, False, False]"
    by (simp add: boot_def openWaterValve_def closeWaterValve_def loop_def digitalWrite_def
        emit_def Let_def delay_value)
  have l: "valveLevel ?s = level_of (valveOpen ?s)" by (simp add: boot_def level_of_def)
  have f: "\<not> valveOpen (acts ?as ?s)"
    by (simp add: boot_def openWaterValve_def closeWaterValve_def loop_def digitalWrite_def
        emit_def Let_def delay_value)
  note t = writes_are_transitions [of ?as ?s]
  from t h have g1: "valve_writes (trace (acts ?as ?s)) = [HIGH, LOW]"
    by (simp add: boot_def level_of_def)
  from t have g2: "valve_writes (trace (openWaterValve (openWaterValve ?s))) = [HIGH]"
    by (simp add: boot_def)
  from t l f have g3: "valveLevel (acts ?as ?s) = LOW"
    by (simp add: level_of_def)
  show ?thesis using g1 h g2 l g3 by blast
qed

text \<open>
  The claim as stated fails in both comparator sketches: after \<open>setup()\<close> two opens in
  succession write \<open>HIGH\<close> twice in the plain sketch, the second time onto a pin that is
  high already, and write nothing in the debounced sketch while the timer runs.
\<close>

theorem open_twice_counterexample:
  "valve_writes (trace_plain
      (openWaterValve_plain (openWaterValve_plain (setup_plain (boot_plain LOW))))) =
     valve_writes (trace_plain (setup_plain (boot_plain LOW))) @ [HIGH, HIGH] \<and>
   valveLevel_plain (openWaterValve_plain (setup_plain (boot_plain LOW))) = HIGH \<and>
   valve_writes (trace (openWaterValve (openWaterValve (setup_debounce False (boot LOW))))) =
     valve_writes (trace (setup_debounce False (boot LOW)))"
  by (simp add: setup_plain_def boot_plain_def Let_def emit_plain_def digitalWrite_plain_def
      enableInterrupt_plain_def openWaterValve_plain_def setup_value openWaterValve_def)

text \<open>
  Claim C4. For every potentiometer reading from 0 to 1023, after
  \<open>setMoistureThreshold()\<close> the low threshold is the reading itself (\<open>map\<close> from 0..1023
  onto 0..1023 is the identity) and the high threshold is strictly above it. With the
  binary32 product the inflated value is \<open>lowWater * 101 div 100\<close>, that is \<open>lowWater\<close>
  times 1.01 rounded down, and the high threshold is the larger of that and
  \<open>lowWater + 1\<close>. Nothing else of the state changes. The order of the thresholds does not
  depend on the rounding: it holds for every function in place of the floating-point step.
\<close>

theorem thresholds_ordered:
  assumes "0 \<le>s potValue" and "potValue \<le>s 1023"
  shows "(let s' = setMoistureThreshold times_levelDelta_binary32 potValue s in
           lowWater s' = potValue \<and>
           lowWater s' <s highWater s' \<and>
           sint (times_levelDelta_binary32 potValue) = sint potValue * 101 div 100 \<and>
           sint (highWater s') = max (sint potValue + 1) (sint potValue * 101 div 100) \<and>
           valveOpen_static s' = valveOpen_static s \<and>
           valveLevel_ino s' = valveLevel_ino s \<and>
           trace_ino s' = trace_ino s @ [AnalogRead potPin]) \<and>
         (let s' = setMoistureThreshold times_levelDelta potValue s in
           lowWater s' = potValue \<and>
           lowWater s' <s highWater s' \<and>
           sint (highWater s') = max (sint potValue + 1) (sint (times_levelDelta potValue)))"
proof -
  note i = times_levelDelta_binary32_inflates [OF assms]
  note a = thresholds_ordered_any_step [OF assms, of times_levelDelta_binary32 s, unfolded Let_def]
  note b = thresholds_ordered_any_step [OF assms, of times_levelDelta s, unfolded Let_def]
  have l: "lowWater (setMoistureThreshold f potValue s) = potValue" for f
    by (simp add: setMoistureThreshold_fields)
  from a have "sint (highWater (setMoistureThreshold times_levelDelta_binary32 potValue s)) =
      max (sint (lowWater (setMoistureThreshold times_levelDelta_binary32 potValue s)) + 1)
        (sint (times_levelDelta_binary32
          (lowWater (setMoistureThreshold times_levelDelta_binary32 potValue s))))"
    by blast
  then have m: "sint (highWater (setMoistureThreshold times_levelDelta_binary32 potValue s)) =
      max (sint potValue + 1) (sint potValue * 101 div 100)"
    by (simp only: l i)
  from b have "sint (highWater (setMoistureThreshold times_levelDelta potValue s)) =
      max (sint (lowWater (setMoistureThreshold times_levelDelta potValue s)) + 1)
        (sint (times_levelDelta (lowWater (setMoistureThreshold times_levelDelta potValue s))))"
    by blast
  then have n: "sint (highWater (setMoistureThreshold times_levelDelta potValue s)) =
      max (sint potValue + 1) (sint (times_levelDelta potValue))"
    by (simp only: l)
  from a have c: "lowWater (setMoistureThreshold times_levelDelta_binary32 potValue s)
        <s highWater (setMoistureThreshold times_levelDelta_binary32 potValue s)"
    "valveOpen_static (setMoistureThreshold times_levelDelta_binary32 potValue s) = valveOpen_static s"
    "valveLevel_ino (setMoistureThreshold times_levelDelta_binary32 potValue s) = valveLevel_ino s"
    "trace_ino (setMoistureThreshold times_levelDelta_binary32 potValue s) =
       trace_ino s @ [AnalogRead potPin]"
    by blast+
  from b have d: "lowWater (setMoistureThreshold times_levelDelta potValue s)
        <s highWater (setMoistureThreshold times_levelDelta potValue s)"
    by blast
  show ?thesis unfolding Let_def using l i m n c d by blast
qed

theorem thresholds_ordered_witness:
  "(0 :: 16 word) \<le>s 1000 \<and> (1000 :: 16 word) \<le>s 1023 \<and>
   lowWater (setMoistureThreshold times_levelDelta_binary32 1000 (boot_ino LOW)) = 1000 \<and>
   sint (highWater (setMoistureThreshold times_levelDelta_binary32 1000 (boot_ino LOW))) = 1010 \<and>
   (0 :: 16 word) \<le>s 50 \<and> (50 :: 16 word) \<le>s 1023 \<and>
   lowWater (setMoistureThreshold times_levelDelta_binary32 50 (boot_ino LOW)) = 50 \<and>
   sint (highWater (setMoistureThreshold times_levelDelta_binary32 50 (boot_ino LOW))) = 51"
proof -
  have h1: "(0 :: 16 word) \<le>s 1000" "(1000 :: 16 word) \<le>s 1023" by (simp_all add: word_sle_eq)
  have h2: "(0 :: 16 word) \<le>s 50" "(50 :: 16 word) \<le>s 1023" by (simp_all add: word_sle_eq)
  note t1 = thresholds_ordered [OF h1, of "boot_ino LOW" times_levelDelta_binary32, unfolded Let_def]
  note t2 = thresholds_ordered [OF h2, of "boot_ino LOW" times_levelDelta_binary32, unfolded Let_def]
  from t1 have g1: "lowWater (setMoistureThreshold times_levelDelta_binary32 1000 (boot_ino LOW)) = 1000"
    "sint (highWater (setMoistureThreshold times_levelDelta_binary32 1000 (boot_ino LOW))) = 1010"
    by simp_all
  from t2 have g2: "lowWater (setMoistureThreshold times_levelDelta_binary32 50 (boot_ino LOW)) = 50"
    "sint (highWater (setMoistureThreshold times_levelDelta_binary32 50 (boot_ino LOW))) = 51"
    by simp_all
  show ?thesis using h1 h2 g1 g2 by blast
qed

text \<open>
  Claim C5, as amended, with the events named by the crossing as the claim names them.
  The dry-to-wet event is the comparator's rising edge, handled by
  \<open>moistureLevelHighInterrupt\<close>: it calls \<open>closeWaterValve()\<close> and then arms the watch for
  wet to dry (Rising in the specification's terms). The wet-to-dry event is the
  comparator's falling edge, handled by \<open>moistureLevelLowInterrupt\<close>: it first arms the
  watch for dry to wet (Falling) and then calls \<open>openWaterValve()\<close>; the sketch opens last
  and closes first on purpose. \<open>setup()\<close> and both handlers only ever enable the low-level
  handler on the falling edge or the high-level handler on the rising edge, in every state
  reached from \<open>setup()\<close>, so when the enabled handler runs the opposite direction is armed
  afterwards. In the plain sketch the low handler writes the pin high and then enables the
  high handler, and the high handler writes it low and then enables the low handler.
\<close>

theorem edge_handlers_alternate:
  "(let r = moistureLevelHighInterrupt s in
      \<not> valveOpen r \<and>
      debounceTimer r = (if valveOpen s then ucast DEBOUNCE_DELAY_TIME else debounceTimer s) \<and>
      trace r = trace s @ (if valveOpen s then [DigitalWrite valvePin LOW] else []) @
        [ComparatorEnableInterrupt MoistureLevelLowInterrupt FALLING] \<and>
      comparatorISR r = Some (MoistureLevelLowInterrupt, FALLING) \<and>
      ArmedEdge r = Some Rising) \<and>
   (let r = moistureLevelLowInterrupt s in
      valveOpen r = (valveOpen s \<or> debounceTimer s = 0) \<and>
      trace r = trace s @ [ComparatorEnableInterrupt MoistureLevelHighInterrupt RISING] @
        (if \<not> valveOpen s \<and> debounceTimer s = 0 then [DigitalWrite valvePin HIGH] else []) \<and>
      comparatorISR r = Some (MoistureLevelHighInterrupt, RISING) \<and>
      ArmedEdge r = Some Falling) \<and>
   paired (setup_debounce wet (boot lvl)) \<and>
   paired (call_isr h s) \<and>
   paired (loop s) = paired s \<and>
   paired (run es (setup_debounce wet (boot lvl))) \<and>
   (paired s \<and> comparatorISR s = Some (h, d) \<longrightarrow>
      armed (call_isr h s) = Some (opposite d)) \<and>
   (\<exists>t. trace_plain (moistureLowInterrupt p) =
      trace_plain p @ [DigitalWrite valvePin HIGH,
                       ComparatorEnableInterrupt MoistureHighInterrupt t]) \<and>
   (\<exists>t. trace_plain (moistureHighInterrupt p) =
      trace_plain p @ [DigitalWrite valvePin LOW,
                       ComparatorEnableInterrupt MoistureLowInterrupt t])"
proof -
  have a: "\<not> valveOpen (moistureLevelHighInterrupt s) \<and>
      debounceTimer (moistureLevelHighInterrupt s) =
        (if valveOpen s then ucast DEBOUNCE_DELAY_TIME else debounceTimer s) \<and>
      trace (moistureLevelHighInterrupt s) =
        trace s @ (if valveOpen s then [DigitalWrite valvePin LOW] else []) @
        [ComparatorEnableInterrupt MoistureLevelLowInterrupt FALLING] \<and>
      comparatorISR (moistureLevelHighInterrupt s) = Some (MoistureLevelLowInterrupt, FALLING) \<and>
      ArmedEdge (moistureLevelHighInterrupt s) = Some Rising"
    by (simp add: high_isr ArmedEdge_simps [of _ MoistureLevelLowInterrupt])
  have b: "valveOpen (moistureLevelLowInterrupt s) = (valveOpen s \<or> debounceTimer s = 0) \<and>
      trace (moistureLevelLowInterrupt s) =
        trace s @ [ComparatorEnableInterrupt MoistureLevelHighInterrupt RISING] @
        (if \<not> valveOpen s \<and> debounceTimer s = 0 then [DigitalWrite valvePin HIGH] else []) \<and>
      comparatorISR (moistureLevelLowInterrupt s) = Some (MoistureLevelHighInterrupt, RISING) \<and>
      ArmedEdge (moistureLevelLowInterrupt s) = Some Falling"
    by (simp add: low_isr ArmedEdge_simps [of _ MoistureLevelHighInterrupt])
  have c: "paired (setup_debounce wet (boot lvl))" by (rule setup_paired)
  have d: "paired (call_isr h s)" by (rule isr_paired)
  have e: "paired (loop s) = paired s" by (rule loop_paired)
  have f: "paired (run es (setup_debounce wet (boot lvl)))" by (rule run_paired [OF c])
  have g: "paired s \<and> comparatorISR s = Some (h, d) \<longrightarrow>
      armed (call_isr h s) = Some (opposite d)"
    using isr_opposite [of s h d] by blast
  have i: "\<exists>t. trace_plain (moistureLowInterrupt p) =
      trace_plain p @ [DigitalWrite valvePin HIGH,
                       ComparatorEnableInterrupt MoistureHighInterrupt t]"
    using plain_traces(1) [of p] by blast
  have j: "\<exists>t. trace_plain (moistureHighInterrupt p) =
      trace_plain p @ [DigitalWrite valvePin LOW,
                       ComparatorEnableInterrupt MoistureLowInterrupt t]"
    using plain_traces(2) [of p] by blast
  show ?thesis unfolding Let_def using a b c d e f g i j by blast
qed

theorem edge_handlers_alternate_witness:
  "paired (setup_debounce False (boot LOW)) \<and>
   comparatorISR (setup_debounce False (boot LOW)) = Some (MoistureLevelHighInterrupt, RISING) \<and>
   armed (call_isr MoistureLevelHighInterrupt (setup_debounce False (boot LOW))) = Some FALLING \<and>
   ArmedEdge (moistureLevelHighInterrupt (setup_debounce False (boot LOW))) = Some Rising \<and>
   paired (setup_debounce True (boot LOW)) \<and>
   comparatorISR (setup_debounce True (boot LOW)) = Some (MoistureLevelLowInterrupt, FALLING) \<and>
   armed (call_isr MoistureLevelLowInterrupt (setup_debounce True (boot LOW))) = Some RISING \<and>
   ArmedEdge (moistureLevelLowInterrupt (setup_debounce True (boot LOW))) = Some Falling \<and>
   trace (moistureLevelLowInterrupt (setup_debounce True (boot LOW))) =
     trace (setup_debounce True (boot LOW)) @
     [ComparatorEnableInterrupt MoistureLevelHighInterrupt RISING]"
proof -
  let ?d = "setup_debounce False (boot LOW)"
  let ?w = "setup_debounce True (boot LOW)"
  have h1: "comparatorISR ?d = Some (MoistureLevelHighInterrupt, RISING)"
    and h2: "comparatorISR ?w = Some (MoistureLevelLowInterrupt, FALLING)"
    by (simp_all add: setup_armed)
  have v: "\<not> valveOpen ?w" "debounceTimer ?w = 7" by (simp_all add: setup_state)
  note t1 = edge_handlers_alternate [of ?d False LOW MoistureLevelHighInterrupt "[]" RISING,
      unfolded Let_def]
  note t2 = edge_handlers_alternate [of ?w True LOW MoistureLevelLowInterrupt "[]" FALLING,
      unfolded Let_def]
  from t1 have p1: "paired ?d" by blast
  from t2 have p2: "paired ?w" by blast
  from t1 p1 h1 have g1: "armed (call_isr MoistureLevelHighInterrupt ?d) = Some (opposite RISING)"
    by blast
  from t1 have g2: "ArmedEdge (moistureLevelHighInterrupt ?d) = Some Rising" by blast
  from t2 p2 h2 have g3: "armed (call_isr MoistureLevelLowInterrupt ?w) = Some (opposite FALLING)"
    by blast
  from t2 have g4: "ArmedEdge (moistureLevelLowInterrupt ?w) = Some Falling" by blast
  from t2 have "trace (moistureLevelLowInterrupt ?w) =
      trace ?w @ [ComparatorEnableInterrupt MoistureLevelHighInterrupt RISING] @
      (if \<not> valveOpen ?w \<and> debounceTimer ?w = 0 then [DigitalWrite valvePin HIGH] else [])"
    by blast
  then have g5: "trace (moistureLevelLowInterrupt ?w) =
      trace ?w @ [ComparatorEnableInterrupt MoistureLevelHighInterrupt RISING]"
    using v by simp
  show ?thesis using p1 h1 g1 g2 p2 h2 g3 g4 g5 by simp
qed

text \<open>
  The claim as stated fails in the order of the open handler: seven wake ticks after a wet
  start the low-level handler is the enabled one, and when it runs it enables the rising
  edge before it writes the pin high. In the plain sketch the direction does not alternate
  either: \<open>setup()\<close> enables the low handler on the falling edge, and that handler enables
  the high handler on the falling edge again.
\<close>

theorem open_handler_arms_first:
  "comparatorISR (run [WakeTick, WakeTick, WakeTick, WakeTick, WakeTick, WakeTick, WakeTick]
       (setup_debounce True (boot LOW))) = Some (MoistureLevelLowInterrupt, FALLING) \<and>
   trace (moistureLevelLowInterrupt
       (run [WakeTick, WakeTick, WakeTick, WakeTick, WakeTick, WakeTick, WakeTick]
         (setup_debounce True (boot LOW)))) =
     [NoInterrupts, PinMode valvePin OUTPUT, DigitalWrite valvePin LOW, ComparatorSetOn,
      ComparatorWait, ComparatorEnableInterrupt MoistureLevelLowInterrupt FALLING, Interrupts,
      PowerDown, PowerDown, PowerDown, PowerDown, PowerDown, PowerDown, PowerDown,
      ComparatorEnableInterrupt MoistureLevelHighInterrupt RISING, DigitalWrite valvePin HIGH] \<and>
   comparatorISR_plain (setup_plain (boot_plain LOW)) = Some (MoistureLowInterrupt, FALLING) \<and>
   comparatorISR_plain (moistureLowInterrupt (setup_plain (boot_plain LOW))) =
     Some (MoistureHighInterrupt, FALLING)"
  by (simp add: seven_ticks low_isr setup_plain_def boot_plain_def Let_def emit_plain_def
      digitalWrite_plain_def enableInterrupt_plain_def moistureLowInterrupt_def
      openWaterValve_plain_def)

text \<open>
  Claim C6. On a wet reading the probe calls \<open>closeWaterValve()\<close> and then enables
  \<open>moistureLevelLowInterrupt\<close>, the handler that opens the valve, on the comparator's
  falling edge, which is the wet-to-dry crossing: the valve is closed and the armed edge
  is Rising in the specification's terms ("now watching for wet to dry"). After \<open>setup()\<close>
  with a wet reading the valve is closed, the pin is low and Rising is armed.
\<close>

theorem wet_probe_closes_and_arms_rising:
  "(let r = enableMoistureLevelInterrupts True s in
      \<not> valveOpen r \<and>
      ArmedEdge r = Some Rising \<and>
      comparatorISR r = Some (MoistureLevelLowInterrupt, FALLING) \<and>
      trace r = trace s @ [ComparatorWait] @
        (if valveOpen s then [DigitalWrite valvePin LOW] else []) @
        [ComparatorEnableInterrupt MoistureLevelLowInterrupt FALLING]) \<and>
   (let b = setup_debounce True (boot lvl) in
      \<not> valveOpen b \<and> valveLevel b = LOW \<and> ArmedEdge b = Some Rising \<and>
      comparatorISR b = Some (MoistureLevelLowInterrupt, FALLING)) \<and>
   valveOpen (moistureLevelLowInterrupt s) = (valveOpen s \<or> debounceTimer s = 0) \<and>
   \<not> valveOpen (moistureLevelHighInterrupt s)"
  by (simp add: Let_def probe_wet setup_state setup_armed low_isr high_isr
      ArmedEdge_simps [of _ MoistureLevelLowInterrupt])

theorem wet_probe_closes_and_arms_rising_witness:
  "\<not> valveOpen (enableMoistureLevelInterrupts True (boot HIGH)) \<and>
   ArmedEdge (enableMoistureLevelInterrupts True (boot HIGH)) = Some Rising \<and>
   trace (enableMoistureLevelInterrupts True (boot HIGH)) =
     [ComparatorWait, DigitalWrite valvePin LOW,
      ComparatorEnableInterrupt MoistureLevelLowInterrupt FALLING] \<and>
   \<not> valveOpen (setup_debounce True (boot HIGH)) \<and>
   valveLevel (setup_debounce True (boot HIGH)) = LOW \<and>
   ArmedEdge (setup_debounce True (boot HIGH)) = Some Rising"
  using wet_probe_closes_and_arms_rising [of "boot HIGH" HIGH]
  by (simp add: Let_def boot_fields)

text \<open>
  Claim C7. \<open>checkMoisture()\<close> is the rule of the specification, applied to the sample
  it has just read and the stored thresholds (compared as the signed \<open>int\<close>s they are):
  closed and below \<open>lowWater\<close> opens, open and at or above \<open>highWater\<close> closes, and every
  other case leaves the valve, the pin and the thresholds as they were. In particular a
  sample inside the band, from \<open>lowWater\<close> up to but not including \<open>highWater\<close>, changes
  nothing.
\<close>

theorem checkMoisture_is_spec_rule:
  "checkMoisture reading s =
     apply_command
       (spec_rule (valveOpen_static s) (sint reading) (sint (lowWater s)) (sint (highWater s)))
       (emit_ino (AnalogRead moistureSensorPin) s) \<and>
   (sint (lowWater s) \<le> sint reading \<and> sint reading < sint (highWater s) \<longrightarrow>
      valveOpen_static (checkMoisture reading s) = valveOpen_static s \<and>
      valveLevel_ino (checkMoisture reading s) = valveLevel_ino s \<and>
      valve_writes (trace_ino (checkMoisture reading s)) = valve_writes (trace_ino s))"
  by (auto simp: checkMoisture_def Let_def word_of_map_long spec_rule_def emit_ino_def
      digitalWrite_ino_def word_sless_alt word_sle_eq valve_writes_append)

theorem checkMoisture_is_spec_rule_witness:
  "sint (lowWater \<lparr>lowWater = 300, highWater = 303, valveOpen_static = True,
       valveLevel_ino = HIGH, trace_ino = []\<rparr>) \<le> sint (301 :: 16 word) \<and>
   sint (301 :: 16 word) < sint (highWater \<lparr>lowWater = 300, highWater = 303,
       valveOpen_static = True, valveLevel_ino = HIGH, trace_ino = []\<rparr>) \<and>
   checkMoisture 301 \<lparr>lowWater = 300, highWater = 303, valveOpen_static = True,
       valveLevel_ino = HIGH, trace_ino = []\<rparr> =
     \<lparr>lowWater = 300, highWater = 303, valveOpen_static = True, valveLevel_ino = HIGH,
      trace_ino = [AnalogRead moistureSensorPin]\<rparr> \<and>
   checkMoisture 303 \<lparr>lowWater = 300, highWater = 303, valveOpen_static = True,
       valveLevel_ino = HIGH, trace_ino = []\<rparr> =
     \<lparr>lowWater = 300, highWater = 303, valveOpen_static = False, valveLevel_ino = LOW,
      trace_ino = [AnalogRead moistureSensorPin, DigitalWrite valvePin LOW]\<rparr> \<and>
   checkMoisture 299 \<lparr>lowWater = 300, highWater = 303, valveOpen_static = False,
       valveLevel_ino = LOW, trace_ino = []\<rparr> =
     \<lparr>lowWater = 300, highWater = 303, valveOpen_static = True, valveLevel_ino = HIGH,
      trace_ino = [AnalogRead moistureSensorPin, DigitalWrite valvePin HIGH]\<rparr>"
  using checkMoisture_is_spec_rule [of 301 "\<lparr>lowWater = 300, highWater = 303,
      valveOpen_static = True, valveLevel_ino = HIGH, trace_ino = []\<rparr>"]
    checkMoisture_is_spec_rule [of 303 "\<lparr>lowWater = 300, highWater = 303,
      valveOpen_static = True, valveLevel_ino = HIGH, trace_ino = []\<rparr>"]
    checkMoisture_is_spec_rule [of 299 "\<lparr>lowWater = 300, highWater = 303,
      valveOpen_static = False, valveLevel_ino = LOW, trace_ino = []\<rparr>"]
  by (simp add: spec_rule_def emit_ino_def)

text \<open>
  Claim C8, as amended. In each of the three sketches the first write to the valve pin in
  \<open>setup()\<close> is \<open>LOW\<close>, whatever level the pin powered up with, and no sensor is read
  before it. In the two comparator sketches no interrupt is armed before it either. In the
  sampling sketch the potentiometer interrupt is attached before it, while interrupts are
  still disabled (\<open>setup()\<close> begins with \<open>noInterrupts()\<close> and ends with \<open>interrupts()\<close>);
  the moisture interrupt is attached after it.
\<close>

theorem valve_low_before_sensors:
  "(let t = trace (setup_debounce wet (boot lvl)) in
      take 1 (valve_writes t) = [LOW] \<and>
      filter (\<lambda>op. is_sensor_read op \<or> is_arming op) (before_valve_write t) = []) \<and>
   (let t = trace_plain (setup_plain (boot_plain lvl)) in
      take 1 (valve_writes t) = [LOW] \<and>
      filter (\<lambda>op. is_sensor_read op \<or> is_arming op) (before_valve_write t) = []) \<and>
   (let t = trace_ino (setup_ino times_levelDelta potValue reading (boot_ino lvl)) in
      take 1 (valve_writes t) = [LOW] \<and>
      filter is_sensor_read (before_valve_write t) = [] \<and>
      before_valve_write t =
        [NoInterrupts, PinMode potPin INPUT, AttachInterrupt potPin SetMoistureThreshold CHANGE,
         PinMode valvePin OUTPUT] \<and>
      filter is_arming t =
        [AttachInterrupt potPin SetMoistureThreshold CHANGE,
         AttachInterrupt moistureSensorPin CheckMoisture CHANGE] \<and>
      take 1 t = [NoInterrupts] \<and> last t = Interrupts)"
  by (simp add: Let_def setup_trace setup_plain_trace setup_ino_trace)

theorem valve_low_before_sensors_witness:
  "trace_ino (setup_ino times_levelDelta_binary32 500 300 (boot_ino HIGH)) =
     [NoInterrupts, PinMode potPin INPUT, AttachInterrupt potPin SetMoistureThreshold CHANGE,
      PinMode valvePin OUTPUT, DigitalWrite valvePin LOW, PinMode moistureSensorPin INPUT,
      AttachInterrupt moistureSensorPin CheckMoisture CHANGE, AnalogRead potPin,
      AnalogRead moistureSensorPin, DigitalWrite valvePin HIGH, Interrupts] \<and>
   take 1 (valve_writes (trace_ino (setup_ino times_levelDelta_binary32 500 300 (boot_ino HIGH))))
     = [LOW] \<and>
   filter is_sensor_read
     (before_valve_write (trace_ino (setup_ino times_levelDelta_binary32 500 300 (boot_ino HIGH))))
     = []"
  using valve_low_before_sensors [of True HIGH times_levelDelta_binary32 500 300]
  by (simp add: Let_def setup_ino_trace)

text \<open>
  The claim as stated fails in the sampling sketch: the operations of \<open>setup()\<close> before
  the valve pin is written include the arming of the potentiometer interrupt.
\<close>

theorem pot_interrupt_before_valve_low:
  "before_valve_write (trace_ino (setup_ino times_levelDelta_binary32 500 300 (boot_ino HIGH))) =
     [NoInterrupts, PinMode potPin INPUT, AttachInterrupt potPin SetMoistureThreshold CHANGE,
      PinMode valvePin OUTPUT] \<and>
   filter is_arming
     (before_valve_write (trace_ino (setup_ino times_levelDelta_binary32 500 300 (boot_ino HIGH))))
     \<noteq> []"
  by (simp add: setup_ino_trace)

text \<open>
  Claim C9. The globals start with \<open>valveOpen = true\<close>, so the \<open>closeWaterValve()\<close> of
  \<open>setup()\<close> is a real transition: it writes the pin low and sets \<open>debounceTimer\<close> to
  the delay constant, 7 ticks, before the comparator is read. After \<open>setup()\<close> the valve
  is closed and the timer is full whatever the comparator said, wet or dry, and it stays
  closed, with no further write to the pin, through every sequence of comparator edges
  and wake ticks that has fewer than 7 wake ticks.
\<close>

theorem boot_close_delays_first_open:
  "valveOpen (boot lvl) \<and>
   debounceTimer (closeWaterValve (boot lvl)) = ucast DEBOUNCE_DELAY_TIME \<and>
   unat (ucast DEBOUNCE_DELAY_TIME :: 32 word) = 7 \<and>
   (let s = setup_debounce wet (boot lvl) in
      \<not> valveOpen s \<and> valveLevel s = LOW \<and> debounceTimer s = ucast DEBOUNCE_DELAY_TIME \<and>
      take 5 (trace s) =
        [NoInterrupts, PinMode valvePin OUTPUT, DigitalWrite valvePin LOW, ComparatorSetOn,
         ComparatorWait] \<and>
      valve_writes (trace s) = [LOW]) \<and>
   (ticks es < unat (ucast DEBOUNCE_DELAY_TIME :: 32 word) \<longrightarrow>
      (let r = run es (setup_debounce wet (boot lvl)) in
         \<not> valveOpen r \<and> valveLevel r = LOW \<and> valve_writes (trace r) = [LOW]))"
proof -
  let ?s = "setup_debounce wet (boot lvl)"
  have a: "valveOpen (boot lvl)" by (simp add: boot_def)
  have b: "debounceTimer (closeWaterValve (boot lvl)) = ucast DEBOUNCE_DELAY_TIME"
    by (simp add: boot_def closeWaterValve_def digitalWrite_def emit_def)
  have c: "unat (ucast DEBOUNCE_DELAY_TIME :: 32 word) = 7" by (simp add: delay_value)
  have d: "\<not> valveOpen ?s" "valveLevel ?s = LOW" "debounceTimer ?s = ucast DEBOUNCE_DELAY_TIME"
    "valve_writes (trace ?s) = [LOW]"
    by (simp_all add: setup_state delay_value)
  have e: "take 5 (trace ?s) = [NoInterrupts, PinMode valvePin OUTPUT, DigitalWrite valvePin LOW,
      ComparatorSetOn, ComparatorWait]"
    by (simp add: setup_trace)
  have f: "\<not> valveOpen (run es ?s) \<and> valveLevel (run es ?s) = LOW \<and>
      valve_writes (trace (run es ?s)) = [LOW]"
    if "ticks es < unat (ucast DEBOUNCE_DELAY_TIME :: 32 word)"
    using run_closed [of ?s es] that d by simp
  show ?thesis using a b c d e f by (simp add: Let_def)
qed

theorem boot_close_delays_first_open_witness:
  "ticks [ComparatorEdge RISING, WakeTick, ComparatorEdge FALLING, WakeTick] <
     unat (ucast DEBOUNCE_DELAY_TIME :: 32 word) \<and>
   \<not> valveOpen (run [ComparatorEdge RISING, WakeTick, ComparatorEdge FALLING, WakeTick]
     (setup_debounce False (boot HIGH))) \<and>
   valveLevel (run [ComparatorEdge RISING, WakeTick, ComparatorEdge FALLING, WakeTick]
     (setup_debounce False (boot HIGH))) = LOW"
  using boot_close_delays_first_open [of HIGH False
      "[ComparatorEdge RISING, WakeTick, ComparatorEdge FALLING, WakeTick]"]
  by (simp add: delay_value Let_def)

text \<open>
  Claim C10. In the sampling sketch nothing delays an open: whenever the valve is closed
  and the sample is below \<open>lowWater\<close>, \<open>checkMoisture()\<close> writes the pin high at once.
  In particular a sample that closes the valve followed directly by a sample below
  \<open>lowWater\<close> gives a \<open>LOW\<close> write and then a \<open>HIGH\<close> write, with nothing in between.
\<close>

theorem sampling_open_not_debounced:
  "(\<not> valveOpen_static s \<and> reading <s lowWater s \<longrightarrow>
      (let r = checkMoisture reading s in
         valveOpen_static r \<and> valveLevel_ino r = HIGH \<and>
         trace_ino r = trace_ino s @ [AnalogRead moistureSensorPin, DigitalWrite valvePin HIGH])) \<and>
   (valveOpen_static s \<and> highWater s \<le>s wet \<and> dry <s lowWater s \<longrightarrow>
      (let r = checkMoisture dry (checkMoisture wet s) in
         valveOpen_static r \<and> valveLevel_ino r = HIGH \<and>
         trace_ino r = trace_ino s @
           [AnalogRead moistureSensorPin, DigitalWrite valvePin LOW,
            AnalogRead moistureSensorPin, DigitalWrite valvePin HIGH]))"
proof -
  have a: "valveOpen_static (checkMoisture reading s) \<and>
      valveLevel_ino (checkMoisture reading s) = HIGH \<and>
      trace_ino (checkMoisture reading s) =
        trace_ino s @ [AnalogRead moistureSensorPin, DigitalWrite valvePin HIGH]"
    if "\<not> valveOpen_static s" "reading <s lowWater s" for reading s
    using that
    by (simp add: checkMoisture_def Let_def word_of_map_long emit_ino_def digitalWrite_ino_def)
  have b: "\<not> valveOpen_static (checkMoisture wet s) \<and>
      lowWater (checkMoisture wet s) = lowWater s \<and>
      trace_ino (checkMoisture wet s) =
        trace_ino s @ [AnalogRead moistureSensorPin, DigitalWrite valvePin LOW]"
    if "valveOpen_static s" "highWater s \<le>s wet"
    using that
    by (simp add: checkMoisture_def Let_def word_of_map_long emit_ino_def digitalWrite_ino_def)
  have c: "valveOpen_static (checkMoisture dry (checkMoisture wet s)) \<and>
      valveLevel_ino (checkMoisture dry (checkMoisture wet s)) = HIGH \<and>
      trace_ino (checkMoisture dry (checkMoisture wet s)) = trace_ino s @
        [AnalogRead moistureSensorPin, DigitalWrite valvePin LOW,
         AnalogRead moistureSensorPin, DigitalWrite valvePin HIGH]"
    if "valveOpen_static s" "highWater s \<le>s wet" "dry <s lowWater s"
    using a [of "checkMoisture wet s" dry] b [OF that(1,2)] that(3) by simp
  show ?thesis using a [of s reading] c by (simp add: Let_def)
qed

theorem sampling_open_not_debounced_witness:
  "valveOpen_static \<lparr>lowWater = 300, highWater = 303, valveOpen_static = True,
       valveLevel_ino = HIGH, trace_ino = []\<rparr> \<and>
   highWater \<lparr>lowWater = 300, highWater = 303, valveOpen_static = True,
       valveLevel_ino = HIGH, trace_ino = []\<rparr> \<le>s 310 \<and>
   200 <s lowWater \<lparr>lowWater = 300, highWater = 303, valveOpen_static = True,
       valveLevel_ino = HIGH, trace_ino = []\<rparr> \<and>
   \<not> valveOpen_static (checkMoisture 310 \<lparr>lowWater = 300, highWater = 303,
       valveOpen_static = True, valveLevel_ino = HIGH, trace_ino = []\<rparr>) \<and>
   200 <s lowWater (checkMoisture 310 \<lparr>lowWater = 300, highWater = 303,
       valveOpen_static = True, valveLevel_ino = HIGH, trace_ino = []\<rparr>) \<and>
   valveOpen_static (checkMoisture 200 (checkMoisture 310 \<lparr>lowWater = 300, highWater = 303,
       valveOpen_static = True, valveLevel_ino = HIGH, trace_ino = []\<rparr>)) \<and>
   trace_ino (checkMoisture 200 (checkMoisture 310 \<lparr>lowWater = 300, highWater = 303,
       valveOpen_static = True, valveLevel_ino = HIGH, trace_ino = []\<rparr>)) =
     [AnalogRead moistureSensorPin, DigitalWrite valvePin LOW,
      AnalogRead moistureSensorPin, DigitalWrite valvePin HIGH]"
proof -
  let ?s = "\<lparr>lowWater = 300, highWater = 303, valveOpen_static = True,
       valveLevel_ino = HIGH, trace_ino = []\<rparr>"
  have c: "checkMoisture 310 ?s = \<lparr>lowWater = 300, highWater = 303, valveOpen_static = False,
       valveLevel_ino = LOW, trace_ino = [AnalogRead moistureSensorPin, DigitalWrite valvePin LOW]\<rparr>"
    by (simp add: checkMoisture_def Let_def map_long_identity emit_ino_def digitalWrite_ino_def)
  have h: "valveOpen_static ?s" "highWater ?s \<le>s 310" "200 <s lowWater ?s"
    "\<not> valveOpen_static (checkMoisture 310 ?s)" "200 <s lowWater (checkMoisture 310 ?s)"
    by (simp_all add: c)
  note t1 = sampling_open_not_debounced [of ?s 200 310 200]
  note t2 = sampling_open_not_debounced [of "checkMoisture 310 ?s" 200 310 200]
  from t1 h(1-3) have g1: "trace_ino (checkMoisture 200 (checkMoisture 310 ?s)) =
     [AnalogRead moistureSensorPin, DigitalWrite valvePin LOW,
      AnalogRead moistureSensorPin, DigitalWrite valvePin HIGH]"
    unfolding Let_def by simp
  from t2 h(4,5) have g2: "valveOpen_static (checkMoisture 200 (checkMoisture 310 ?s))"
    unfolding Let_def by blast
  show ?thesis using h g1 g2 by blast
qed

end
